theory Spec2Isabelle
  imports
    Complex_Main
    "HOL-Library.Log_Nat"
    "HOL-Library.Char_ord"
    "HOL-Library.List_Lexorder"
begin

section \<open>Values of the interpreter\<close>

text \<open>
  The program is a single Python module, \<^verbatim>\<open>bdo_tracker.py\<close>. Python integers are
  unbounded and are modelled by \<^typ>\<open>int\<close>. A Python \<^verbatim>\<open>str\<close> is modelled by
  \<^typ>\<open>string\<close>: a list of bytes holding the text in UTF-8. Strings are ordered byte
  by byte, which on UTF-8 is the order of the code points, the order of Python's
  \<^verbatim>\<open>sorted\<close> and of SQLite's \<^verbatim>\<open>ORDER BY\<close>.

  Every exception the modelled code can raise is a value of \<open>py_error\<close>; a function
  that may raise returns \<open>py_error + 'a\<close>, with \<open>Inl\<close> for the exception.
\<close>

datatype py_error =
  ValueError | KeyError | ZeroDivisionError | OverflowError | AttributeError | OperationalError

subsection \<open>Decimal text\<close>

definition is_digit :: "char \<Rightarrow> bool" where
  "is_digit c = (CHR ''0'' \<le> c \<and> c \<le> CHR ''9'')"

definition digit_val :: "char \<Rightarrow> nat" where
  "digit_val c = of_char c - 48"

definition digit_char :: "nat \<Rightarrow> char" where
  "digit_char n = char_of (48 + n)"

text \<open>\<^verbatim>\<open>str(n)\<close> for a natural number and for an integer.\<close>

fun str_nat :: "nat \<Rightarrow> string" where
  "str_nat n = (if n < 10 then [digit_char n] else str_nat (n div 10) @ [digit_char (n mod 10)])"

declare str_nat.simps [simp del]

definition str_int :: "int \<Rightarrow> string" where
  "str_int i = (if i < 0 then CHR ''-'' # str_nat (nat (- i)) else str_nat (nat i))"

text \<open>Zero padding on the left, as the format specs \<^verbatim>\<open>02d\<close> and \<^verbatim>\<open>04d\<close> do.\<close>

definition zfill :: "nat \<Rightarrow> string \<Rightarrow> string" where
  "zfill w s = replicate (w - length s) (CHR ''0'') @ s"

text \<open>The last \<open>w\<close> decimal digits of a number, the form of a zero-padded field.\<close>

fun digits_w :: "nat \<Rightarrow> nat \<Rightarrow> string" where
  "digits_w 0 n = []"
| "digits_w (Suc w) n = digits_w w (n div 10) @ [digit_char (n mod 10)]"

subsection \<open>Characters of a text\<close>

text \<open>
  The characters of a text, each as its code point (an integer) together with the bytes that
  encode it in UTF-8. A byte that starts no well-formed sequence stands for itself
  under the code point U+FFFD; such a byte occurs in no Python \<^verbatim>\<open>str\<close>.
\<close>

definition is_cont :: "char \<Rightarrow> bool" where
  "is_cont c = (0x80 \<le> (of_char c :: int) \<and> (of_char c :: int) < 0xC0)"

definition cont_prefix :: "nat \<Rightarrow> string \<Rightarrow> bool" where
  "cont_prefix k bs = (k \<le> length bs \<and> list_all is_cont (take k bs))"

definition code_point :: "int \<Rightarrow> string \<Rightarrow> int" where
  "code_point lead conts = fold (\<lambda>c acc. acc * 64 + (of_char c - 0x80)) conts lead"

function utf8_chars :: "string \<Rightarrow> (int \<times> string) list" where
  "utf8_chars [] = []"
| "utf8_chars (b # bs) =
     (let n = (of_char b :: int) in
      if 0xC0 \<le> n \<and> n < 0xE0 \<and> cont_prefix 1 bs then
        (code_point (n - 0xC0) (take 1 bs), b # take 1 bs) # utf8_chars (drop 1 bs)
      else if 0xE0 \<le> n \<and> n < 0xF0 \<and> cont_prefix 2 bs then
        (code_point (n - 0xE0) (take 2 bs), b # take 2 bs) # utf8_chars (drop 2 bs)
      else if 0xF0 \<le> n \<and> n < 0xF8 \<and> cont_prefix 3 bs then
        (code_point (n - 0xF0) (take 3 bs), b # take 3 bs) # utf8_chars (drop 3 bs)
      else ((if n < 0x80 then n else 0xFFFD), [b]) # utf8_chars bs)"
  by pat_completeness auto
termination
  by (relation "measure length") simp_all

text \<open>
  The code points for which \<^verbatim>\<open>str.isspace\<close> holds, the white space that
  \<^verbatim>\<open>str.strip()\<close> removes at both ends of a text.
\<close>

definition is_space_point :: "int \<Rightarrow> bool" where
  "is_space_point p =
     ((0x09 \<le> p \<and> p \<le> 0x0D) \<or> (0x1C \<le> p \<and> p \<le> 0x20) \<or> p = 0x85 \<or> p = 0xA0 \<or>
      p = 0x1680 \<or> (0x2000 \<le> p \<and> p \<le> 0x200A) \<or> p = 0x2028 \<or> p = 0x2029 \<or>
      p = 0x202F \<or> p = 0x205F \<or> p = 0x3000)"

definition strip :: "string \<Rightarrow> string" where
  "strip s =
     concat (map snd
       (rev (dropWhile (\<lambda>c. is_space_point (fst c))
          (rev (dropWhile (\<lambda>c. is_space_point (fst c)) (utf8_chars s))))))"

text \<open>
  The decimal digits of Unicode 14.0 come in runs of ten, from the digit zero to the
  digit nine; \<open>digit_zeros\<close> lists the code points of the zeros.
\<close>

definition digit_zeros :: "int list" where
  "digit_zeros =
     [0x30, 0x660, 0x6F0, 0x7C0, 0x966, 0x9E6, 0xA66, 0xAE6, 0xB66, 0xBE6, 0xC66,
      0xCE6, 0xD66, 0xDE6, 0xE50, 0xED0, 0xF20, 0x1040, 0x1090, 0x17E0, 0x1810,
      0x1946, 0x19D0, 0x1A80, 0x1A90, 0x1B50, 0x1BB0, 0x1C40, 0x1C50, 0xA620, 0xA8D0,
      0xA900, 0xA9D0, 0xA9F0, 0xAA50, 0xABF0, 0xFF10, 0x104A0, 0x10D30, 0x11066,
      0x110F0, 0x11136, 0x111D0, 0x112F0, 0x11450, 0x114D0, 0x11650, 0x116C0, 0x11730,
      0x118E0, 0x11950, 0x11C50, 0x11D50, 0x11DA0, 0x16A60, 0x16AC0, 0x16B50, 0x1D7CE,
      0x1D7D8, 0x1D7E2, 0x1D7EC, 0x1D7F6, 0x1E140, 0x1E2F0, 0x1E950, 0x1FBF0]"

definition decimal_of_point :: "int \<Rightarrow> nat option" where
  "decimal_of_point p =
     (case filter (\<lambda>z. z \<le> p \<and> p \<le> z + 9) digit_zeros of
        [] \<Rightarrow> None
      | z # zs \<Rightarrow> Some (nat (p - z)))"

text \<open>
  \<^verbatim>\<open>int(s)\<close> on text. Every character from U+007F on is first replaced: white space
  by a blank, a decimal digit by its ASCII digit, anything else by a question mark.
  Then the ASCII white space 9 to 13 and 32 is dropped at both ends, and what is left
  must be an optional sign and a non-empty run of digits in which single underscores
  may separate digits, with no more than 4300 digits. Anything else raises
  \<^verbatim>\<open>ValueError\<close>, which is the value \<open>None\<close> here.
\<close>

definition to_ascii :: "int \<Rightarrow> char" where
  "to_ascii p =
     (if p < 127 then char_of p
      else if is_space_point p then CHR '' ''
      else (case decimal_of_point p of
              Some d \<Rightarrow> digit_char d
            | None \<Rightarrow> CHR ''?''))"

definition is_int_space :: "char \<Rightarrow> bool" where
  "is_int_space c = (let n = (of_char c :: nat) in (9 \<le> n \<and> n \<le> 13) \<or> n = 32)"

fun int_digits :: "nat \<Rightarrow> string \<Rightarrow> nat option" where
  "int_digits acc [] = None"
| "int_digits acc [c] = (if is_digit c then Some (10 * acc + digit_val c) else None)"
| "int_digits acc (c # d # cs) =
     (if \<not> is_digit c then None
      else if d = CHR ''_'' then int_digits (10 * acc + digit_val c) cs
      else int_digits (10 * acc + digit_val c) (d # cs))"

definition py_int :: "string \<Rightarrow> int option" where
  "py_int s =
     (let t = map (\<lambda>c. to_ascii (fst c)) (utf8_chars s)
      in case rev (dropWhile is_int_space (rev (dropWhile is_int_space t))) of
           [] \<Rightarrow> None
         | c # cs \<Rightarrow>
             if 4300 < int (length (filter is_digit (c # cs))) then None
             else if c = CHR ''-'' then map_option (\<lambda>n. - int n) (int_digits 0 cs)
             else if c = CHR ''+'' then map_option int (int_digits 0 cs)
             else map_option int (int_digits 0 (c # cs)))"

text \<open>\<^verbatim>\<open>s.split(sep)\<close> for a separator of one character.\<close>

fun split_on :: "char \<Rightarrow> string \<Rightarrow> string list" where
  "split_on sep [] = [[]]"
| "split_on sep (c # cs) =
     (if c = sep then [] # split_on sep cs
      else (case split_on sep cs of
              [] \<Rightarrow> [[c]]
            | w # ws \<Rightarrow> (c # w) # ws))"

subsection \<open>Floating point\<close>

text \<open>
  A Python \<^verbatim>\<open>float\<close> is an IEEE 754 binary64 number. Its finite values are rationals
  and are kept as such; \<open>fl\<close> rounds a rational to the nearest binary64 value, ties to
  even, with 53 bits of precision and a least exponent of \<open>-1074\<close>. The rounded value
  may reach \<open>2 ^ 1024\<close>; the operations below turn that into an overflow. The sign of
  a zero is not kept: \<open>Finite 0\<close> stands for both zeros, which the modelled code
  does not tell apart.
\<close>

datatype float64 = Finite rat | PlusInf | MinusInf | NaN

datatype number = IntV int | FloatV float64

definition round_half_even :: "rat \<Rightarrow> int" where
  "round_half_even q =
     (let f = \<lfloor>q\<rfloor>; r = q - of_int f
      in if r < 1/2 then f else if 1/2 < r then f + 1 else if even f then f else f + 1)"

definition pow2 :: "int \<Rightarrow> rat" where
  "pow2 e = (if 0 \<le> e then 2 ^ nat e else 1 / 2 ^ nat (- e))"

text \<open>The integer \<open>k\<close> with \<open>2 ^ k \<le> q < 2 ^ (k + 1)\<close>, for \<open>q > 0\<close>.\<close>

definition floor_log2 :: "rat \<Rightarrow> int" where
  "floor_log2 q =
     (let (a, b) = quotient_of q; k = bitlen a - bitlen b
      in if pow2 k \<le> q then k else k - 1)"

definition fl :: "rat \<Rightarrow> rat" where
  "fl q =
     (if q = 0 then 0
      else let a = \<bar>q\<bar>;
               e = max (floor_log2 a - 52) (- 1074);
               m = round_half_even (a / pow2 e)
           in sgn q * of_int m * pow2 e)"

text \<open>The least magnitude that is too large for a float, \<open>2 ^ 1024\<close>, as \<open>(2 ^ 32) ^ 32\<close>.\<close>

definition DBL_OVERFLOW :: rat where
  "DBL_OVERFLOW = (2 ^ 32) ^ 32"

text \<open>\<^verbatim>\<open>a / b\<close> on two integers: correctly rounded, and it raises when the divisor is
  zero or the rounded quotient is too large for a float.\<close>

definition int_truediv :: "int \<Rightarrow> int \<Rightarrow> py_error + float64" where
  "int_truediv a b =
     (if b = 0 then Inl ZeroDivisionError
      else let r = fl (of_int a / of_int b)
           in if DBL_OVERFLOW \<le> \<bar>r\<bar> then Inl OverflowError else Inr (Finite r))"

text \<open>The conversion of an integer operand to a float, as mixed arithmetic does.\<close>

definition int_to_float :: "int \<Rightarrow> py_error + float64" where
  "int_to_float a =
     (let r = fl (of_int a)
      in if DBL_OVERFLOW \<le> \<bar>r\<bar> then Inl OverflowError else Inr (Finite r))"

text \<open>\<^verbatim>\<open>x / y\<close> on two floats: a zero divisor raises, an overflow gives an infinity.\<close>

definition float_truediv :: "float64 \<Rightarrow> float64 \<Rightarrow> py_error + float64" where
  "float_truediv x y =
     (case y of
        NaN \<Rightarrow> Inr NaN
      | Finite b \<Rightarrow>
          if b = 0 then Inl ZeroDivisionError
          else (case x of
                  NaN \<Rightarrow> Inr NaN
                | PlusInf \<Rightarrow> Inr (if 0 < b then PlusInf else MinusInf)
                | MinusInf \<Rightarrow> Inr (if 0 < b then MinusInf else PlusInf)
                | Finite a \<Rightarrow>
                    let r = fl (a / b)
                    in Inr (if DBL_OVERFLOW \<le> r then PlusInf
                            else if r \<le> - DBL_OVERFLOW then MinusInf
                            else Finite r))
      | _ \<Rightarrow>
          (case x of
             Finite a \<Rightarrow> Inr (Finite 0)
           | _ \<Rightarrow> Inr NaN))"

text \<open>\<^verbatim>\<open>x / y\<close> and \<^verbatim>\<open>x >= n\<close> on numbers of either kind.\<close>

definition as_float :: "number \<Rightarrow> py_error + float64" where
  "as_float x = (case x of IntV i \<Rightarrow> int_to_float i | FloatV f \<Rightarrow> Inr f)"

definition truediv :: "number \<Rightarrow> number \<Rightarrow> py_error + float64" where
  "truediv x y =
     (case (x, y) of
        (IntV a, IntV b) \<Rightarrow> int_truediv a b
      | _ \<Rightarrow>
          (case as_float x of
             Inl e \<Rightarrow> Inl e
           | Inr a \<Rightarrow>
               (case as_float y of
                  Inl e \<Rightarrow> Inl e
                | Inr b \<Rightarrow> float_truediv a b)))"

definition num_ge :: "number \<Rightarrow> int \<Rightarrow> bool" where
  "num_ge x n =
     (case x of
        IntV i \<Rightarrow> n \<le> i
      | FloatV (Finite r) \<Rightarrow> of_int n \<le> r
      | FloatV PlusInf \<Rightarrow> True
      | FloatV _ \<Rightarrow> False)"

text \<open>
  The format spec \<^verbatim>\<open>.Nf\<close>: the exact value of the float rounded to \<open>N\<close> decimals,
  ties to even.
\<close>

definition fmt_f :: "nat \<Rightarrow> float64 \<Rightarrow> string" where
  "fmt_f N x =
     (case x of
        NaN \<Rightarrow> ''nan''
      | PlusInf \<Rightarrow> ''inf''
      | MinusInf \<Rightarrow> ''-inf''
      | Finite r \<Rightarrow>
          let n = nat (round_half_even (\<bar>r\<bar> * 10 ^ N));
              body = str_nat (n div 10 ^ N) @
                     (if N = 0 then [] else CHR ''.'' # zfill N (str_nat (n mod 10 ^ N)))
          in if r < 0 then CHR ''-'' # body else body)"

text \<open>
  \<^verbatim>\<open>str(int(x))\<close>: a float is truncated towards zero. The interpreter refuses to
  print an integer of more than 4300 digits; that limit is not modelled, the amounts
  of the program being 64-bit integers and floats.
\<close>

definition str_of_int_of :: "number \<Rightarrow> py_error + string" where
  "str_of_int_of x =
     (case x of
        IntV i \<Rightarrow> Inr (str_int i)
      | FloatV (Finite r) \<Rightarrow> Inr (str_int (if 0 \<le> r then \<lfloor>r\<rfloor> else \<lceil>r\<rceil>))
      | FloatV NaN \<Rightarrow> Inl ValueError
      | FloatV _ \<Rightarrow> Inl OverflowError)"

section \<open>Formatting of amounts\<close>

definition format_money :: "number \<Rightarrow> py_error + string" where
  "format_money x =
     (if num_ge x 1000000000 then
        map_sum id (\<lambda>q. fmt_f 0 q @ ''G'') (truediv x (IntV 1000000000))
      else if num_ge x 1000000 then
        map_sum id (\<lambda>q. fmt_f 0 q @ ''M'') (truediv x (IntV 1000000))
      else if num_ge x 1000 then
        map_sum id (\<lambda>q. fmt_f 0 q @ ''K'') (truediv x (IntV 1000))
      else str_of_int_of x)"

definition format_hourly :: "number \<Rightarrow> py_error + string" where
  "format_hourly x =
     (if num_ge x 1000000 then
        map_sum id (\<lambda>q. fmt_f 1 q @ ''M'') (truediv x (IntV 1000000))
      else if num_ge x 1000 then
        map_sum id (\<lambda>q. fmt_f 1 q @ ''K'') (truediv x (IntV 1000))
      else str_of_int_of x)"

section \<open>Dates\<close>

record date =
  year :: nat
  month :: nat
  day :: nat

definition is_leap :: "nat \<Rightarrow> bool" where
  "is_leap y = (y mod 4 = 0 \<and> (y mod 100 \<noteq> 0 \<or> y mod 400 = 0))"

definition days_in_month :: "nat \<Rightarrow> nat \<Rightarrow> nat" where
  "days_in_month y m =
     (if m = 2 then (if is_leap y then 29 else 28)
      else if m = 4 \<or> m = 6 \<or> m = 9 \<or> m = 11 then 30 else 31)"

text \<open>The dates a \<^verbatim>\<open>datetime.date\<close> can hold.\<close>

definition valid_date :: "date \<Rightarrow> bool" where
  "valid_date d =
     (1 \<le> year d \<and> year d \<le> 9999 \<and> 1 \<le> month d \<and> month d \<le> 12 \<and>
      1 \<le> day d \<and> day d \<le> days_in_month (year d) (month d))"

text \<open>\<^verbatim>\<open>date.isoformat()\<close>: \<^verbatim>\<open>YYYY-MM-DD\<close>.\<close>

definition isoformat :: "date \<Rightarrow> string" where
  "isoformat d =
     zfill 4 (str_nat (year d)) @ ''-'' @ zfill 2 (str_nat (month d)) @ ''-'' @
     zfill 2 (str_nat (day d))"

text \<open>The order of the calendar on dates, and on their months.\<close>

definition date_less :: "date \<Rightarrow> date \<Rightarrow> bool" where
  "date_less a b =
     (year a < year b \<or>
      (year a = year b \<and> (month a < month b \<or> (month a = month b \<and> day a < day b))))"








text \<open>
  SQLite's \<^verbatim>\<open>strftime('%Y-%m', t)\<close> on a text \<open>t\<close> that holds a date only: four
  digits, a month from 01 to 12 and a day from 01 to 31, each of two digits, then
  nothing but white space or \<^verbatim>\<open>T\<close>. A day past the end of its month counts into the
  next month. The result \<open>None\<close> is SQL's \<^verbatim>\<open>NULL\<close>. The other time strings of SQLite
  (a time of day, a signed year, a Julian day number, \<^verbatim>\<open>now\<close>) are not modelled;
  \<open>add_session\<close> stores none of them.
\<close>

text \<open>The text \<^verbatim>\<open>YYYY-MM\<close> of a year and a month, as \<^verbatim>\<open>%Y-%m\<close> prints it.\<close>

definition ym_text :: "nat \<Rightarrow> nat \<Rightarrow> string" where
  "ym_text y m = zfill 4 (str_nat y) @ ''-'' @ zfill 2 (str_nat m)"

definition two_digits :: "char \<Rightarrow> char \<Rightarrow> nat option" where
  "two_digits a b = (if is_digit a \<and> is_digit b then Some (10 * digit_val a + digit_val b) else None)"

definition is_sqlite_space :: "char \<Rightarrow> bool" where
  "is_sqlite_space c = (let n = (of_char c :: nat) in (9 \<le> n \<and> n \<le> 13) \<or> n = 32)"

definition sqlite_strftime_ym :: "string \<Rightarrow> string option" where
  "sqlite_strftime_ym t =
     (case t of
        y1 # y2 # y3 # y4 # s1 # m1 # m2 # s2 # d1 # d2 # rest \<Rightarrow>
          if is_digit y1 \<and> is_digit y2 \<and> is_digit y3 \<and> is_digit y4 \<and>
             s1 = CHR ''-'' \<and> s2 = CHR ''-'' \<and>
             (\<forall>c \<in> set rest. is_sqlite_space c \<or> c = CHR ''T'')
          then
            (case (two_digits m1 m2, two_digits d1 d2) of
               (Some m, Some d) \<Rightarrow>
                 if 1 \<le> m \<and> m \<le> 12 \<and> 1 \<le> d \<and> d \<le> 31 then
                   let y = 1000 * digit_val y1 + 100 * digit_val y2 +
                           10 * digit_val y3 + digit_val y4;
                       m' = (if days_in_month y m < d then m + 1 else m)
                   in Some (ym_text y m')
                 else None
             | _ \<Rightarrow> None)
          else None
      | _ \<Rightarrow> None)"

section \<open>The program state\<close>

text \<open>
  A row of the table \<^verbatim>\<open>sessions\<close>. The table is a list of rows in the order of
  insertion. Its integer columns are modelled by \<^typ>\<open>int\<close>; \<open>add_session\<close> writes
  values of 64 bits only.
\<close>

record session =
  row_id :: int
  spot :: string
  trash_start :: int
  trash_end :: int
  duration :: int
  trash_gained :: int
  earned :: int
  created_at :: string

text \<open>
  The state holds the global dictionary \<^verbatim>\<open>SPOTS\<close> (keys in insertion order), the
  content of the file \<^verbatim>\<open>spot.json\<close> (\<open>None\<close> while the file does not exist), the
  table of the database file, and the attributes of the \<^verbatim>\<open>App\<close> object that the
  modelled methods read or write. The callbacks that Tk holds for \<^verbatim>\<open>after\<close> are
  the identifiers in \<open>after_queue\<close>; \<open>after_count\<close> numbers them.
\<close>

record state =
  SPOTS :: "(string \<times> int) list"
  spot_file :: "(string \<times> int) list option"
  sessions :: "session list"
  running :: bool
  minutes :: int
  timer_id :: "nat option"
  app_trash_start :: "int option"
  after_queue :: "nat list"
  after_count :: nat
  spot_listbox :: "string list"
  spot_combo :: "string list"
  spot_var :: string

text \<open>The state after \<^verbatim>\<open>App.__init__\<close>, for a given dictionary, file and table.\<close>

definition init_state ::
  "(string \<times> int) list \<Rightarrow> (string \<times> int) list option \<Rightarrow> session list \<Rightarrow> state" where
  "init_state spots file rows =
     \<lparr>SPOTS = spots, spot_file = file, sessions = rows,
      running = False, minutes = 0, timer_id = None, app_trash_start = None,
      after_queue = [], after_count = 0,
      spot_listbox = map fst spots, spot_combo = map fst spots,
      spot_var = (if spots = [] then [] else fst (hd spots))\<rparr>"

subsection \<open>Dictionaries\<close>

text \<open>
  A Python \<^verbatim>\<open>dict\<close> keeps its keys in insertion order: an assignment to a present
  key keeps its place, an assignment to a new key appends it.
\<close>

definition dict_get :: "('k \<times> 'v) list \<Rightarrow> 'k \<Rightarrow> 'v \<Rightarrow> 'v" where
  "dict_get d k dflt = (case map_of d k of None \<Rightarrow> dflt | Some v \<Rightarrow> v)"

definition dict_in :: "'k \<Rightarrow> ('k \<times> 'v) list \<Rightarrow> bool" where
  "dict_in k d = (k \<in> fst ` set d)"

fun dict_set :: "'k \<Rightarrow> 'v \<Rightarrow> ('k \<times> 'v) list \<Rightarrow> ('k \<times> 'v) list" where
  "dict_set k v [] = [(k, v)]"
| "dict_set k v (p # ps) = (if fst p = k then (k, v) # ps else p # dict_set k v ps)"

definition dict_del :: "'k \<Rightarrow> ('k \<times> 'v) list \<Rightarrow> py_error + ('k \<times> 'v) list" where
  "dict_del k d = (if dict_in k d then Inr (filter (\<lambda>p. fst p \<noteq> k) d) else Inl KeyError)"

section \<open>The session store\<close>

text \<open>The key that \<^verbatim>\<open>AUTOINCREMENT\<close> gives the next row: one more than the largest so far.\<close>

definition next_row_id :: "session list \<Rightarrow> int" where
  "next_row_id rows = fold max (map row_id rows) 0 + 1"

text \<open>
  An integer that the \<^verbatim>\<open>sqlite3\<close> module binds to a parameter of a statement must
  fit a signed 64-bit integer; otherwise \<^verbatim>\<open>execute\<close> raises \<^verbatim>\<open>OverflowError\<close>.
\<close>

definition sqlite_int64 :: "int \<Rightarrow> bool" where
  "sqlite_int64 n = (- (2 ^ 63) \<le> n \<and> n < 2 ^ 63)"

text \<open>
  \<^verbatim>\<open>add_session(spot, trash_start, trash_end, duration)\<close>; \<open>today\<close> is the value of
  \<^verbatim>\<open>datetime.date.today()\<close>. The result is the new state and either the returned
  pair or the exception of the \<^verbatim>\<open>INSERT\<close>, which leaves the table as it was.
\<close>

definition add_session ::
  "date \<Rightarrow> state \<Rightarrow> string \<Rightarrow> int \<Rightarrow> int \<Rightarrow> int \<Rightarrow> state \<times> (py_error + int \<times> int)" where
  "add_session today s spot' trash_start' trash_end' duration' =
     (let gained = trash_end' - trash_start';
          earned' = gained * dict_get (SPOTS s) spot' 0;
          row = \<lparr>row_id = next_row_id (sessions s), spot = spot',
                 trash_start = trash_start', trash_end = trash_end',
                 duration = duration', trash_gained = gained, earned = earned',
                 created_at = isoformat today\<rparr>
      in if sqlite_int64 trash_start' \<and> sqlite_int64 trash_end' \<and> sqlite_int64 duration' \<and>
            sqlite_int64 gained \<and> sqlite_int64 earned'
         then (s\<lparr>sessions := sessions s @ [row]\<rparr>, Inr (gained, earned'))
         else (s, Inl OverflowError))"




text \<open>
  SQLite's \<^verbatim>\<open>SUM\<close> over the integers of a group, taken in the order of the
  table: the running sum is a signed 64-bit integer, and once it leaves that range the
  query fails with \<^verbatim>\<open>integer overflow\<close>, which the \<^verbatim>\<open>sqlite3\<close> module raises as
  \<^verbatim>\<open>OperationalError\<close>.
\<close>

fun sum_step :: "int \<Rightarrow> int list \<Rightarrow> py_error + int" where
  "sum_step acc [] = Inr acc"
| "sum_step acc (x # xs) =
     (if sqlite_int64 (acc + x) then sum_step (acc + x) xs else Inl OperationalError)"

definition sqlite_sum :: "int list \<Rightarrow> py_error + int" where
  "sqlite_sum xs = sum_step 0 xs"

text \<open>The results of a function along a list; the first exception ends the run.\<close>

fun collect :: "('a \<Rightarrow> py_error + 'b) \<Rightarrow> 'a list \<Rightarrow> py_error + 'b list" where
  "collect f [] = Inr []"
| "collect f (x # xs) =
     (case f x of
        Inl e \<Rightarrow> Inl e
      | Inr y \<Rightarrow> (case collect f xs of Inl e \<Rightarrow> Inl e | Inr ys \<Rightarrow> Inr (y # ys)))"

text \<open>
  The query \<^verbatim>\<open>SELECT created_at, SUM(duration), SUM(earned) FROM sessions GROUP BY
  created_at ORDER BY created_at\<close> on a list of rows: one row of the result for each
  distinct value of \<^verbatim>\<open>created_at\<close>, in ascending order.
\<close>

definition group_row :: "session list \<Rightarrow> string \<Rightarrow> py_error + string \<times> int \<times> int" where
  "group_row rows d =
     (case sqlite_sum (map duration (filter (\<lambda>r. created_at r = d) rows)) of
        Inl e \<Rightarrow> Inl e
      | Inr dur \<Rightarrow>
          (case sqlite_sum (map earned (filter (\<lambda>r. created_at r = d) rows)) of
             Inl e \<Rightarrow> Inl e
           | Inr earn \<Rightarrow> Inr (d, dur, earn)))"

definition group_by_created_at :: "session list \<Rightarrow> py_error + (string \<times> int \<times> int) list" where
  "group_by_created_at rows = collect (group_row rows) (sort (remdups (map created_at rows)))"

text \<open>The rows that pass \<^verbatim>\<open>WHERE strftime('%Y-%m', created_at) = ?\<close>.\<close>

definition where_month :: "string \<Rightarrow> session list \<Rightarrow> session list" where
  "where_month month_filter rows =
     filter (\<lambda>r. sqlite_strftime_ym (created_at r) = Some month_filter) rows"

text \<open>The filter that stands for the whole table, the text of two Japanese characters.\<close>

definition ALL_MONTHS :: string where
  "ALL_MONTHS = [CHR 0xE5, CHR 0x85, CHR 0xA8, CHR 0xE4, CHR 0xBD, CHR 0x93]"

text \<open>
  \<^verbatim>\<open>App.get_daily_data(month_filter)\<close>. With a filter other than \<open>ALL_MONTHS\<close> the
  method first unpacks \<^verbatim>\<open>month_filter.split('-')\<close> into two names, which raises
  \<^verbatim>\<open>ValueError\<close> unless the list has two elements.
\<close>

definition get_daily_data :: "string \<Rightarrow> session list \<Rightarrow> py_error + (string \<times> int \<times> int) list" where
  "get_daily_data month_filter rows =
     (if month_filter = ALL_MONTHS then group_by_created_at rows
      else (case split_on CHR ''-'' month_filter of
              [year', month'] \<Rightarrow> group_by_created_at (where_month month_filter rows)
            | _ \<Rightarrow> Inl ValueError))"

text \<open>\<^verbatim>\<open>App.get_hourly_data(month_filter)\<close>.\<close>

definition get_hourly_data :: "string \<Rightarrow> session list \<Rightarrow> py_error + (string \<times> int \<times> int) list" where
  "get_hourly_data month_filter rows =
     (if month_filter = ALL_MONTHS then group_by_created_at rows
      else group_by_created_at (where_month month_filter rows))"

text \<open>
  The hourly rates of \<^verbatim>\<open>App.plot_hourly\<close>: for a row \<open>r\<close> of the query the
  expression \<^verbatim>\<open>r[2]/(r[1]/60) if r[1]>0 else 0\<close>, and the list comprehension over
  the rows, which stops at the first exception.
\<close>

definition hourly_rate :: "string \<times> int \<times> int \<Rightarrow> py_error + number" where
  "hourly_rate r =
     (case r of (d, dur, earn) \<Rightarrow>
        if 0 < dur then
          (case truediv (IntV dur) (IntV 60) of
             Inl e \<Rightarrow> Inl e
           | Inr h \<Rightarrow> map_sum id FloatV (truediv (IntV earn) (FloatV h)))
        else Inr (IntV 0))"

fun hourly :: "(string \<times> int \<times> int) list \<Rightarrow> py_error + number list" where
  "hourly [] = Inr []"
| "hourly (r # rows) =
     (case hourly_rate r of
        Inl e \<Rightarrow> Inl e
      | Inr v \<Rightarrow> (case hourly rows of Inl e \<Rightarrow> Inl e | Inr vs \<Rightarrow> Inr (v # vs)))"

section \<open>The price table editor\<close>

text \<open>
  A method of the \<^verbatim>\<open>App\<close> object returns the new state together with what the user
  sees: nothing (\<open>Done\<close>), an error dialog of \<^verbatim>\<open>messagebox.showerror\<close>, or an
  exception that leaves the method.
\<close>

datatype dialog =
    PriceNotInteger
  | NameEmpty
  | NameExists
  | NoSpotSelectedForUpdate
  | NoSpotSelectedForDelete
  | StartCountNotInteger

datatype outcome = Done | ShowError dialog | Raised py_error

text \<open>\<^verbatim>\<open>save_spots(SPOTS)\<close> overwrites the file with the dictionary.\<close>

definition save_spots :: "state \<Rightarrow> state" where
  "save_spots s = s\<lparr>spot_file := Some (SPOTS s)\<rparr>"

definition update_spot_listbox :: "state \<Rightarrow> state" where
  "update_spot_listbox s =
     s\<lparr>spot_listbox := map fst (SPOTS s),
       spot_combo := map fst (SPOTS s),
       spot_var := (if SPOTS s \<noteq> [] then fst (hd (SPOTS s)) else spot_var s)\<rparr>"

text \<open>\<^verbatim>\<open>Listbox.get(i)\<close>: the item at the index, the empty text past the end.\<close>

definition listbox_get :: "string list \<Rightarrow> nat \<Rightarrow> string" where
  "listbox_get items i = (if i < length items then items ! i else [])"

text \<open>
  \<^verbatim>\<open>App.add_spot\<close>; \<open>name_entry\<close> and \<open>price_entry\<close> are the texts of the two entry
  fields.
\<close>

definition add_spot :: "state \<Rightarrow> string \<Rightarrow> string \<Rightarrow> outcome \<times> state" where
  "add_spot s name_entry price_entry =
     (let name = strip name_entry
      in case py_int price_entry of
           None \<Rightarrow> (ShowError PriceNotInteger, s)
         | Some price \<Rightarrow>
             if name = [] then (ShowError NameEmpty, s)
             else if dict_in name (SPOTS s) then (ShowError NameExists, s)
             else (Done, update_spot_listbox
                           (save_spots (s\<lparr>SPOTS := dict_set name price (SPOTS s)\<rparr>))))"

text \<open>
  \<^verbatim>\<open>App.update_spot\<close>; \<open>selection\<close> is the value of \<^verbatim>\<open>curselection()\<close>, the list
  of the selected indices.
\<close>

definition update_spot :: "state \<Rightarrow> nat list \<Rightarrow> string \<Rightarrow> string \<Rightarrow> outcome \<times> state" where
  "update_spot s selection name_entry price_entry =
     (if selection = [] then (ShowError NoSpotSelectedForUpdate, s)
      else let old_name = listbox_get (spot_listbox s) (hd selection);
               new_name = strip name_entry
           in case py_int price_entry of
                None \<Rightarrow> (ShowError PriceNotInteger, s)
              | Some price \<Rightarrow>
                  if new_name = [] then (ShowError NameEmpty, s)
                  else if new_name \<noteq> old_name \<and> dict_in new_name (SPOTS s)
                    then (ShowError NameExists, s)
                  else (case dict_del old_name (SPOTS s) of
                          Inl e \<Rightarrow> (Raised e, s)
                        | Inr d \<Rightarrow>
                            (Done, update_spot_listbox
                                     (save_spots (s\<lparr>SPOTS := dict_set new_name price d\<rparr>)))))"

text \<open>\<^verbatim>\<open>App.delete_spot\<close>.\<close>

definition delete_spot :: "state \<Rightarrow> nat list \<Rightarrow> outcome \<times> state" where
  "delete_spot s selection =
     (if selection = [] then (ShowError NoSpotSelectedForDelete, s)
      else let name = listbox_get (spot_listbox s) (hd selection)
           in case dict_del name (SPOTS s) of
                Inl e \<Rightarrow> (Raised e, s)
              | Inr d \<Rightarrow> (Done, update_spot_listbox (save_spots (s\<lparr>SPOTS := d\<rparr>))))"

text \<open>A user action on the editor, and a run of such actions from a state.\<close>

datatype spot_op =
    AddSpot string string
  | UpdateSpot "nat list" string string
  | DeleteSpot "nat list"

fun apply_spot_op :: "spot_op \<Rightarrow> state \<Rightarrow> state" where
  "apply_spot_op (AddSpot name_entry price_entry) s = snd (add_spot s name_entry price_entry)"
| "apply_spot_op (UpdateSpot selection name_entry price_entry) s =
     snd (update_spot s selection name_entry price_entry)"
| "apply_spot_op (DeleteSpot selection) s = snd (delete_spot s selection)"

definition apply_spot_ops :: "spot_op list \<Rightarrow> state \<Rightarrow> state" where
  "apply_spot_ops ops s = fold apply_spot_op ops s"

section \<open>The session timer\<close>

text \<open>
  \<^verbatim>\<open>App.update_timer\<close>: while running it adds a minute and asks Tk to call it again
  after 60 seconds; the identifier of that call is kept in \<^verbatim>\<open>timer_id\<close>.
\<close>

definition update_timer :: "state \<Rightarrow> state" where
  "update_timer s =
     (if running s then
        s\<lparr>minutes := minutes s + 1,
          timer_id := Some (after_count s),
          after_queue := after_queue s @ [after_count s],
          after_count := after_count s + 1\<rparr>
      else s)"

text \<open>\<^verbatim>\<open>App.start_timer\<close>; \<open>start_entry\<close> is the text of the entry field.\<close>

definition start_timer :: "state \<Rightarrow> string \<Rightarrow> outcome \<times> state" where
  "start_timer s start_entry =
     (case py_int start_entry of
        None \<Rightarrow> (ShowError StartCountNotInteger, s)
      | Some n \<Rightarrow>
          (Done, update_timer (s\<lparr>app_trash_start := Some n, minutes := 0, running := True\<rparr>)))"

definition pause_timer :: "state \<Rightarrow> state" where
  "pause_timer s =
     (if running s then
        (case timer_id s of
           None \<Rightarrow> s\<lparr>running := False\<rparr>
         | Some i \<Rightarrow> s\<lparr>running := False, after_queue := removeAll i (after_queue s)\<rparr>)
      else s)"

definition resume_timer :: "state \<Rightarrow> state" where
  "resume_timer s = (if \<not> running s then update_timer (s\<lparr>running := True\<rparr>) else s)"

text \<open>
  The states of the timer as the specification names them: \<open>Idle\<close> before a start count
  has been captured, \<open>Running\<close> while the flag \<^verbatim>\<open>running\<close> is set, \<open>Paused\<close> otherwise.
\<close>

datatype phase = Idle | Running | Paused

definition phase_of :: "state \<Rightarrow> phase" where
  "phase_of s =
     (if running s then Running
      else if app_trash_start s = None then Idle else Paused)"

section \<open>Properties of the rounding to binary64\<close>

lemma pow2_powi: "pow2 e = 2 powi e"
  by (simp add: pow2_def power_int_def power_inverse inverse_eq_divide power_one_over)

lemma pow2_pos: "0 < pow2 e"
  by (simp add: pow2_powi)

lemma pow2_add: "pow2 (a + b) = pow2 a * pow2 b"
  by (simp add: pow2_powi power_int_add)

lemma pow2_diff: "pow2 (a - b) = pow2 a / pow2 b"
  by (simp add: pow2_powi power_int_diff)

lemma pow2_nat: "0 \<le> e \<Longrightarrow> pow2 e = of_int (2 ^ nat e)"
  by (simp add: pow2_def)

lemma pow2_mono: "a \<le> b \<Longrightarrow> pow2 a \<le> pow2 b"
  by (simp add: pow2_powi power_int_increasing)

lemma pow2_less_cancel: "pow2 a < pow2 b \<Longrightarrow> a < b"
  using pow2_mono [of b a] by (cases "a < b") auto

lemma pow2_strict_mono: "a < b \<Longrightarrow> pow2 a < pow2 b"
  by (simp add: pow2_powi power_int_strict_increasing)

lemma DBL_OVERFLOW_pow2: "DBL_OVERFLOW = pow2 1024"
  by (simp add: DBL_OVERFLOW_def pow2_def)

lemma bitlen_rat_bounds:
  assumes "0 < a"
  shows "pow2 (bitlen a - 1) \<le> of_int a" and "(of_int a :: rat) < pow2 (bitlen a)"
proof -
  from assms have pos: "0 < bitlen a"
    using bitlen_eq_zero_iff [of a] bitlen_nonneg [of a] by linarith
  from bitlen_bounds [OF assms]
  have lo: "(2::int) ^ nat (bitlen a - 1) \<le> a" and hi: "a < 2 ^ nat (bitlen a)" by auto
  from lo have "(of_int ((2::int) ^ nat (bitlen a - 1)) :: rat) \<le> of_int a"
    by (simp only: of_int_le_iff)
  with pos show "pow2 (bitlen a - 1) \<le> of_int a"
    by (simp add: pow2_def)
  from hi have "(of_int a :: rat) < of_int ((2::int) ^ nat (bitlen a))"
    by (simp only: of_int_less_iff)
  with pos show "(of_int a :: rat) < pow2 (bitlen a)"
    by (simp add: pow2_def)
qed

lemma floor_log2_bounds:
  assumes "0 < q"
  shows "pow2 (floor_log2 q) \<le> q \<and> q < pow2 (floor_log2 q + 1)"
proof -
  obtain a b where ab: "quotient_of q = (a, b)" by (cases "quotient_of q")
  then have b: "0 < b" and q: "q = of_int a / of_int b"
    by (simp_all add: quotient_of_denom_pos quotient_of_div)
  with assms have a: "0 < a"
    by (simp add: zero_less_divide_iff)
  define k where "k = bitlen a - bitlen b"
  have "q < pow2 (bitlen a) / pow2 (bitlen b - 1)"
    unfolding q using bitlen_rat_bounds [OF a] bitlen_rat_bounds [OF b] a b pow2_pos
    by (intro frac_less) (auto simp: less_imp_le)
  then have up: "q < pow2 (k + 1)"
    by (simp add: k_def pow2_diff [symmetric] algebra_simps)
  have "pow2 (bitlen a - 1) / pow2 (bitlen b) < q"
    unfolding q using bitlen_rat_bounds [OF a] bitlen_rat_bounds [OF b] a b pow2_pos
    by (intro frac_less2) (auto simp: less_imp_le)
  then have lo: "pow2 (k - 1) < q"
    by (simp add: k_def pow2_diff [symmetric] algebra_simps)
  have fl: "floor_log2 q = (if pow2 k \<le> q then k else k - 1)"
    by (simp add: floor_log2_def ab k_def Let_def)
  show ?thesis
    using up lo by (auto simp: fl less_imp_le)
qed

lemma floor_log2_le: "0 < q \<Longrightarrow> q \<le> pow2 j \<Longrightarrow> floor_log2 q \<le> j"
  using floor_log2_bounds [of q] pow2_strict_mono [of j "floor_log2 q"]
  by (cases "floor_log2 q \<le> j") auto

lemma floor_log2_ge: "0 < q \<Longrightarrow> pow2 j \<le> q \<Longrightarrow> j \<le> floor_log2 q"
  using floor_log2_bounds [of q] pow2_mono [of "floor_log2 q + 1" j]
  by (cases "j \<le> floor_log2 q") auto

lemma round_half_even_cases:
  "round_half_even x = \<lfloor>x\<rfloor> \<or> (round_half_even x = \<lfloor>x\<rfloor> + 1 \<and> 1/2 \<le> x - of_int \<lfloor>x\<rfloor>)"
  by (auto simp: round_half_even_def Let_def)

lemma round_half_even_ge: "of_int n \<le> x \<Longrightarrow> n \<le> round_half_even x"
  using round_half_even_cases [of x] le_floor_iff [of n x] by auto

lemma round_half_even_le:
  assumes "x \<le> of_int n"
  shows "round_half_even x \<le> n"
proof -
  have f: "\<lfloor>x\<rfloor> \<le> n" using assms by (simp add: floor_le_iff) 
  show ?thesis
  proof (cases "round_half_even x = \<lfloor>x\<rfloor>")
    case True
    with f show ?thesis by simp
  next
    case False
    with round_half_even_cases [of x]
    have r: "round_half_even x = \<lfloor>x\<rfloor> + 1" and h: "1/2 \<le> x - of_int \<lfloor>x\<rfloor>" by auto
    from h have "of_int \<lfloor>x\<rfloor> < x" by simp
    with assms have "(of_int \<lfloor>x\<rfloor> :: rat) < of_int n" by linarith
    then have "\<lfloor>x\<rfloor> < n" by (simp only: of_int_less_iff)
    with r show ?thesis by simp
  qed
qed

lemma fl_pos_eq:
  "0 < q \<Longrightarrow>
   fl q = of_int (round_half_even (q / pow2 (max (floor_log2 q - 52) (- 1074)))) *
          pow2 (max (floor_log2 q - 52) (- 1074))"
  by (simp add: fl_def Let_def)

lemma fl_minus: "fl (- q) = - fl q"
  by (simp add: fl_def Let_def sgn_minus)

lemma fl_upper:
  assumes "0 < q" "q \<le> pow2 j" "- 1074 \<le> j"
  shows "fl q \<le> pow2 j"
proof -
  define e where "e = max (floor_log2 q - 52) (- 1074)"
  have ej: "e \<le> j"
    using floor_log2_le [OF assms(1,2)] assms(3) by (simp add: e_def)
  have "q / pow2 e \<le> pow2 j / pow2 e"
    using assms(2) pow2_pos [of e] by (simp add: divide_right_mono less_imp_le)
  also have "\<dots> = of_int (2 ^ nat (j - e))"
    using ej by (simp add: pow2_diff [symmetric] pow2_nat)
  finally have "round_half_even (q / pow2 e) \<le> 2 ^ nat (j - e)"
    by (rule round_half_even_le)
  then have "(of_int (round_half_even (q / pow2 e)) :: rat) \<le> of_int (2 ^ nat (j - e))"
    by (simp only: of_int_le_iff)
  then have "of_int (round_half_even (q / pow2 e)) * pow2 e \<le> of_int (2 ^ nat (j - e)) * pow2 e"
    using pow2_pos [of e] by (simp add: mult_right_mono less_imp_le)
  also have "of_int (2 ^ nat (j - e)) * pow2 e = pow2 j"
    using ej pow2_nat [of "j - e"] pow2_add [of "j - e" e] by simp
  finally show ?thesis
    using assms(1) by (simp add: fl_pos_eq e_def)
qed

lemma fl_lower:
  assumes "0 < q" "pow2 j \<le> q" "- 1074 \<le> j"
  shows "pow2 j \<le> fl q"
proof -
  define k where "k = floor_log2 q"
  define e where "e = max (k - 52) (- 1074)"
  have jk: "j \<le> k"
    using floor_log2_ge [OF assms(1,2)] by (simp add: k_def)
  with assms(3) have ek: "e \<le> k" by (simp add: e_def)
  have "pow2 k \<le> q"
    using floor_log2_bounds [OF assms(1)] by (simp add: k_def)
  then have "pow2 k / pow2 e \<le> q / pow2 e"
    using pow2_pos [of e] by (simp add: divide_right_mono less_imp_le)
  moreover have "pow2 k / pow2 e = of_int (2 ^ nat (k - e))"
    using ek by (simp add: pow2_diff [symmetric] pow2_nat)
  ultimately have "2 ^ nat (k - e) \<le> round_half_even (q / pow2 e)"
    by (intro round_half_even_ge) simp
  then have "(of_int (2 ^ nat (k - e)) :: rat) \<le> of_int (round_half_even (q / pow2 e))"
    by (simp only: of_int_le_iff)
  then have "of_int (2 ^ nat (k - e)) * pow2 e \<le> of_int (round_half_even (q / pow2 e)) * pow2 e"
    using pow2_pos [of e] by (simp add: mult_right_mono less_imp_le)
  moreover have "of_int (2 ^ nat (k - e)) * pow2 e = pow2 k"
    using ek pow2_nat [of "k - e"] pow2_add [of "k - e" e] by simp
  ultimately have "pow2 k \<le> fl q"
    using assms(1) by (simp add: fl_pos_eq e_def k_def)
  with pow2_mono [OF jk] show ?thesis by (rule order_trans)
qed

lemma fl_nonneg:
  assumes "0 < q"
  shows "0 \<le> fl q"
proof -
  define e where "e = max (floor_log2 q - 52) (- 1074)"
  have "(of_int 0 :: rat) \<le> q / pow2 e"
    using assms pow2_pos [of e] by (simp add: less_imp_le)
  then have "0 \<le> round_half_even (q / pow2 e)"
    by (rule round_half_even_ge)
  then have "0 \<le> (of_int (round_half_even (q / pow2 e)) :: rat) * pow2 e"
    using pow2_pos [of e] by (simp add: less_imp_le)
  then show ?thesis
    using assms by (simp add: fl_pos_eq e_def)
qed

lemma fl_abs_upper:
  assumes "\<bar>q\<bar> \<le> pow2 j" "- 1074 \<le> j"
  shows "\<bar>fl q\<bar> \<le> pow2 j"
proof -
  consider "q = 0" | "0 < q" | "0 < - q" by linarith
  then show ?thesis
  proof cases
    case 1
    then show ?thesis using pow2_pos [of j] by (simp add: fl_def less_imp_le)
  next
    case 2
    with assms have "fl q \<le> pow2 j" by (intro fl_upper) auto
    with fl_nonneg [OF 2] show ?thesis by simp
  next
    case 3
    with assms have "fl (- q) \<le> pow2 j" by (intro fl_upper) auto
    with fl_nonneg [OF 3] show ?thesis by (simp add: fl_minus)
  qed
qed

section \<open>Properties of the formatting and of the hourly rate\<close>

lemma int_truediv_ok:
  assumes "b \<noteq> 0" "\<bar>of_int a / of_int b :: rat\<bar> \<le> pow2 1023"
  shows "int_truediv a b = Inr (Finite (fl (of_int a / of_int b)))"
proof -
  have "\<bar>fl (of_int a / of_int b)\<bar> \<le> pow2 1023"
    using assms(2) by (rule fl_abs_upper) simp
  also have "pow2 1023 < pow2 1024" by (rule pow2_strict_mono) simp
  finally show ?thesis
    using assms(1) by (simp add: int_truediv_def Let_def DBL_OVERFLOW_pow2)
qed

lemma int_to_float_ok:
  assumes "\<bar>of_int a :: rat\<bar> \<le> pow2 1023"
  shows "int_to_float a = Inr (Finite (fl (of_int a)))"
proof -
  have "\<bar>fl (of_int a)\<bar> \<le> pow2 1023"
    using assms by (rule fl_abs_upper) simp
  also have "pow2 1023 < pow2 1024" by (rule pow2_strict_mono) simp
  finally show ?thesis
    by (simp add: int_to_float_def Let_def DBL_OVERFLOW_pow2)
qed

lemma truediv_int_int [simp]: "truediv (IntV a) (IntV b) = int_truediv a b"
  by (simp add: truediv_def)

lemma fmt_f_0_nonneg: "0 \<le> r \<Longrightarrow> fmt_f 0 (Finite r) = str_nat (nat (round_half_even r))"
  by (simp add: fmt_f_def Let_def)

lemma scaled_quotient:
  assumes "0 < x" "x \<le> 2 ^ 1023" "1 \<le> n"
  shows "int_truediv x n = Inr (Finite (fl (of_int x / of_int n)))"
    and "0 \<le> fl (of_int x / of_int n :: rat)"
proof -
  have pos: "0 < (of_int x / of_int n :: rat)" using assms by simp
  have "(of_int x / of_int n :: rat) \<le> of_int x"
    using assms by (simp add: divide_le_eq mult_le_cancel_left1)
  also have "\<dots> \<le> of_int (2 ^ 1023)"
    using assms(2) by (simp only: of_int_le_iff)
  also have "\<dots> = pow2 1023" by (simp add: pow2_def)
  finally have "\<bar>of_int x / of_int n :: rat\<bar> \<le> pow2 1023"
    using pos by simp
  then show "int_truediv x n = Inr (Finite (fl (of_int x / of_int n)))"
    using assms(3) by (intro int_truediv_ok) auto
  show "0 \<le> fl (of_int x / of_int n :: rat)"
    using pos by (rule fl_nonneg)
qed

lemma format_money_small: "x < 1000 \<Longrightarrow> format_money (IntV x) = Inr (str_int x)"
  by (simp add: format_money_def num_ge_def str_of_int_of_def)

lemma format_money_K:
  assumes "1000 \<le> x" "x < 1000000"
  shows "format_money (IntV x) =
           Inr (str_nat (nat (round_half_even (fl (of_int x / 1000)))) @ ''K'')"
  using assms scaled_quotient [of x 1000]
  by (simp add: format_money_def num_ge_def fmt_f_0_nonneg)

lemma format_money_M:
  assumes "1000000 \<le> x" "x < 1000000000"
  shows "format_money (IntV x) =
           Inr (str_nat (nat (round_half_even (fl (of_int x / 1000000)))) @ ''M'')"
  using assms scaled_quotient [of x 1000000]
  by (simp add: format_money_def num_ge_def fmt_f_0_nonneg)

lemma format_money_G:
  assumes "1000000000 \<le> x" "x \<le> 2 ^ 1023"
  shows "format_money (IntV x) =
           Inr (str_nat (nat (round_half_even (fl (of_int x / 1000000000)))) @ ''G'')"
  using assms scaled_quotient [of x 1000000000]
  by (simp add: format_money_def num_ge_def fmt_f_0_nonneg)

lemma format_hourly_small: "x < 1000 \<Longrightarrow> format_hourly (IntV x) = Inr (str_int x)"
  by (simp add: format_hourly_def num_ge_def str_of_int_of_def)

lemma format_hourly_returns:
  assumes "x \<le> 2 ^ 1023"
  shows "\<exists>s. format_hourly (IntV x) = Inr s"
proof (cases "x < 1000")
  case True
  then show ?thesis by (simp add: format_hourly_small)
next
  case False
  then show ?thesis
    using assms scaled_quotient(1) [of x 1000] scaled_quotient(1) [of x 1000000]
    by (simp add: format_hourly_def num_ge_def)
qed

lemma format_money_returns:
  assumes "x \<le> 2 ^ 1023"
  shows "\<exists>s. format_money (IntV x) = Inr s"
proof -
  consider "x < 1000" | "1000 \<le> x" "x < 1000000" | "1000000 \<le> x" "x < 1000000000"
    | "1000000000 \<le> x" by linarith
  then show ?thesis
    using assms
    by cases (simp_all add: format_money_small format_money_K format_money_M format_money_G)
qed

lemma is_digit_iff: "is_digit c \<longleftrightarrow> 48 \<le> (of_char c :: nat) \<and> (of_char c :: nat) \<le> 57"
  by (simp add: is_digit_def less_eq_char_def)

lemma of_char_digit_char: "k < 10 \<Longrightarrow> (of_char (digit_char k) :: nat) = 48 + k"
  by (simp add: digit_char_def)

lemma is_digit_digit_char: "k < 10 \<Longrightarrow> is_digit (digit_char k)"
  by (simp add: is_digit_iff of_char_digit_char)

lemma digit_val_digit_char: "k < 10 \<Longrightarrow> digit_val (digit_char k) = k"
  by (simp add: digit_val_def of_char_digit_char)

lemma str_nat_digits: "list_all is_digit (str_nat n)"
proof (induction n rule: str_nat.induct)
  case (1 n)
  show ?case
  proof (cases "n < 10")
    case True
    then show ?thesis by (subst str_nat.simps) (simp add: is_digit_digit_char)
  next
    case False
    with 1 show ?thesis by (subst str_nat.simps) (simp add: is_digit_digit_char)
  qed
qed

lemma int_truediv_overflow:
  assumes "0 < b" "pow2 1024 \<le> of_int a / of_int b"
  shows "int_truediv a b = Inl OverflowError"
proof -
  have "0 < (of_int a / of_int b :: rat)"
    using assms(2) pow2_pos [of 1024] by linarith
  then have "pow2 1024 \<le> fl (of_int a / of_int b)"
    using assms(2) by (rule fl_lower) simp
  then have "DBL_OVERFLOW \<le> \<bar>fl (of_int a / of_int b)\<bar>"
    by (simp add: DBL_OVERFLOW_pow2)
  then show ?thesis
    using assms(1) by (simp add: int_truediv_def Let_def)
qed

lemma format_money_overflow: "format_money (IntV (1000000000 * 2 ^ 1024)) = Inl OverflowError"
proof -
  have "int_truediv (1000000000 * 2 ^ 1024) 1000000000 = Inl OverflowError"
    by (rule int_truediv_overflow) (simp_all add: pow2_def)
  then show ?thesis
    by (simp add: format_money_def num_ge_def)
qed

lemma hourly_divisor:
  assumes "0 < dur"
  shows "int_truediv dur 60 = Inl OverflowError \<or>
         (int_truediv dur 60 = Inr (Finite (fl (of_int dur / 60))) \<and>
          pow2 (- 6) \<le> fl (of_int dur / 60))"
proof -
  have "(1::rat) \<le> of_int dur" using assms by simp
  then have "pow2 (- 6) \<le> (of_int dur / 60 :: rat)"
    by (simp add: pow2_def)
  moreover from assms have "0 < (of_int dur / 60 :: rat)" by simp
  ultimately have "pow2 (- 6) \<le> fl (of_int dur / 60)"
    by (intro fl_lower) simp_all
  then show ?thesis
    by (simp add: int_truediv_def Let_def)
qed

lemma float_truediv_finite_nonzero:
  "h \<noteq> 0 \<Longrightarrow> \<exists>v. float_truediv (Finite a) (Finite h) = Inr v"
  by (simp add: float_truediv_def Let_def)

lemma int_to_float_error: "int_to_float a = Inl e \<Longrightarrow> e = OverflowError"
  by (auto simp: int_to_float_def Let_def split: if_splits)

lemma int_to_float_finite: "int_to_float a = Inr v \<Longrightarrow> \<exists>r. v = Finite r"
  by (auto simp: int_to_float_def Let_def split: if_splits)

lemma hourly_rate_no_zero_division: "hourly_rate r \<noteq> Inl ZeroDivisionError"
proof -
  obtain d dur earn where r: "r = (d, dur, earn)" by (cases r)
  show ?thesis
  proof (cases "0 < dur")
    case False
    then show ?thesis by (simp add: r hourly_rate_def)
  next
    case True
    from hourly_divisor [OF True] show ?thesis
    proof
      assume "int_truediv dur 60 = Inl OverflowError"
      with True show ?thesis by (simp add: r hourly_rate_def)
    next
      assume h: "int_truediv dur 60 = Inr (Finite (fl (of_int dur / 60))) \<and>
                 pow2 (- 6) \<le> fl (of_int dur / 60)"
      then have nz: "fl (of_int dur / 60 :: rat) \<noteq> 0"
        using pow2_pos [of "- 6"] by linarith
      show ?thesis
      proof (cases "int_to_float earn")
        case (Inl e)
        with int_to_float_error [OF Inl] True h show ?thesis
          by (simp add: r hourly_rate_def truediv_def as_float_def)
      next
        case (Inr v)
        with int_to_float_finite [OF Inr] obtain a where v: "v = Finite a" by auto
        from float_truediv_finite_nonzero [OF nz, of a]
        obtain w where "float_truediv (Finite a) (Finite (fl (of_int dur / 60))) = Inr w" by auto
        with True h Inr v show ?thesis
          by (simp add: r hourly_rate_def truediv_def as_float_def)
      qed
    qed
  qed
qed

lemma hourly_no_zero_division: "hourly rows \<noteq> Inl ZeroDivisionError"
proof (induction rows)
  case Nil
  then show ?case by simp
next
  case (Cons r rows)
  then show ?case
    using hourly_rate_no_zero_division [of r]
    by (auto split: sum.splits)
qed

lemma hourly_length: "hourly rows = Inr vs \<Longrightarrow> length vs = length rows"
  by (induction rows arbitrary: vs) (auto split: sum.splits)

lemma hourly_rate_value:
  assumes "0 < dur" "dur < 2 ^ 63" "\<bar>earn\<bar> < 2 ^ 63"
  shows "hourly_rate (d, dur, earn) =
           Inr (FloatV (Finite (fl (fl (of_int earn) / fl (of_int dur / 60)))))"
proof -
  have p63: "pow2 63 = of_int (2 ^ 63)" by (simp add: pow2_def)
  have d63: "\<bar>of_int dur / of_int 60 :: rat\<bar> \<le> pow2 1023"
  proof -
    have "\<bar>of_int dur / of_int 60 :: rat\<bar> \<le> of_int dur"
      using assms(1) by simp
    also have "\<dots> \<le> of_int (2 ^ 63)"
      using assms(2) by (simp only: of_int_le_iff)
    also have "\<dots> = pow2 63" by (simp add: p63)
    also have "\<dots> \<le> pow2 1023" by (rule pow2_mono) simp
    finally show ?thesis .
  qed
  then have h: "int_truediv dur 60 = Inr (Finite (fl (of_int dur / 60)))"
    using int_truediv_ok [of 60 dur] by simp
  from hourly_divisor [OF assms(1)] h
  have lo: "pow2 (- 6) \<le> fl (of_int dur / 60)" by auto
  have e63: "\<bar>of_int earn :: rat\<bar> \<le> pow2 63"
  proof -
    have "\<bar>of_int earn :: rat\<bar> = of_int \<bar>earn\<bar>" by simp
    also have "\<dots> \<le> of_int (2 ^ 63)"
      using assms(3) by (simp only: of_int_le_iff)
    finally show ?thesis by (simp add: p63)
  qed
  also have "pow2 63 \<le> pow2 1023" by (rule pow2_mono) simp
  finally have a: "int_to_float earn = Inr (Finite (fl (of_int earn)))"
    by (rule int_to_float_ok)
  have fe: "\<bar>fl (of_int earn)\<bar> \<le> pow2 63"
    using e63 by (rule fl_abs_upper) simp
  have "\<bar>fl (of_int earn) / fl (of_int dur / 60)\<bar> \<le> pow2 63 / pow2 (- 6)"
  proof -
    have "0 < pow2 (- 6)" by (rule pow2_pos)
    with lo have pos: "0 < fl (of_int dur / 60 :: rat)" by linarith
    have "\<bar>fl (of_int earn) / fl (of_int dur / 60)\<bar> = \<bar>fl (of_int earn)\<bar> / fl (of_int dur / 60)"
      using pos by (simp add: abs_divide)
    also have "\<dots> \<le> pow2 63 / pow2 (- 6)"
      using fe lo pos pow2_pos [of "- 6"] by (intro frac_le) simp_all
    finally show ?thesis .
  qed
  also have "pow2 63 / pow2 (- 6) = pow2 69"
    by (simp add: pow2_diff [symmetric])
  finally have "\<bar>fl (fl (of_int earn) / fl (of_int dur / 60))\<bar> \<le> pow2 69"
    by (rule fl_abs_upper) simp
  also have "pow2 69 < pow2 1024" by (rule pow2_strict_mono) simp
  finally have small: "\<bar>fl (fl (of_int earn) / fl (of_int dur / 60))\<bar> < DBL_OVERFLOW"
    by (simp add: DBL_OVERFLOW_pow2)
  have nz: "fl (of_int dur / 60 :: rat) \<noteq> 0"
    using lo pow2_pos [of "- 6"] by linarith
  from small have "float_truediv (Finite (fl (of_int earn))) (Finite (fl (of_int dur / 60))) =
      Inr (Finite (fl (fl (of_int earn) / fl (of_int dur / 60))))"
    using nz by (auto simp: float_truediv_def Let_def)
  with assms(1) h a show ?thesis
    by (simp add: hourly_rate_def truediv_def as_float_def)
qed

section \<open>Properties of the state\<close>

lemma dict_set_fresh: "\<not> dict_in k d \<Longrightarrow> dict_set k v d = d @ [(k, v)]"
  by (induction d) (auto simp: dict_in_def)

lemma sessions_update_spot_listbox [simp]: "sessions (update_spot_listbox s) = sessions s"
  by (simp add: update_spot_listbox_def)

lemma sessions_save_spots [simp]: "sessions (save_spots s) = sessions s"
  by (simp add: save_spots_def)

lemma sessions_add_spot: "sessions (snd (add_spot s n p)) = sessions s"
  by (simp add: add_spot_def Let_def split: option.splits)

lemma sessions_update_spot: "sessions (snd (update_spot s sel n p)) = sessions s"
  by (simp add: update_spot_def Let_def split: option.splits sum.splits)

lemma sessions_delete_spot: "sessions (snd (delete_spot s sel)) = sessions s"
  by (simp add: delete_spot_def Let_def split: option.splits sum.splits)

lemma sessions_apply_spot_op: "sessions (apply_spot_op op s) = sessions s"
  by (cases op) (simp_all add: sessions_add_spot sessions_update_spot sessions_delete_spot)

lemma sessions_fold_spot_op: "sessions (fold apply_spot_op ops s) = sessions s"
  by (induction ops arbitrary: s) (simp_all add: sessions_apply_spot_op)

lemma daily_hourly_agree:
  assumes "month_filter = ALL_MONTHS \<or> length (split_on CHR ''-'' month_filter) = 2"
  shows "get_daily_data month_filter rows = get_hourly_data month_filter rows"
proof (cases "month_filter = ALL_MONTHS")
  case True
  then show ?thesis by (simp add: get_daily_data_def get_hourly_data_def)
next
  case False
  with assms obtain a b where "split_on CHR ''-'' month_filter = [a, b]"
    by (auto simp: length_Suc_conv numeral_2_eq_2)
  with False show ?thesis by (simp add: get_daily_data_def get_hourly_data_def)
qed

lemma str_nat_small: "n < 10 \<Longrightarrow> str_nat n = [digit_char n]"
  by (subst str_nat.simps) simp

lemma str_nat_large: "10 \<le> n \<Longrightarrow> str_nat n = str_nat (n div 10) @ [digit_char (n mod 10)]"
  by (subst str_nat.simps) simp

lemma digit_char_values:
  "digit_char 0 = CHR ''0''" "digit_char 1 = CHR ''1''" "digit_char (Suc 0) = CHR ''1''"
  "digit_char 2 = CHR ''2''" "digit_char 3 = CHR ''3''" "digit_char 4 = CHR ''4''"
  "digit_char 5 = CHR ''5''" "digit_char 6 = CHR ''6''" "digit_char 7 = CHR ''7''"
  "digit_char 8 = CHR ''8''" "digit_char 9 = CHR ''9''"
  by code_simp+

lemmas str_nat_eval = str_nat_small str_nat_large digit_char_values

lemma hourly_iff_map: "(hourly rows = Inr vs) = (map hourly_rate rows = map Inr vs)"
proof (induction rows arbitrary: vs)
  case Nil
  then show ?case by auto
next
  case (Cons r rows)
  show ?case
  proof (cases "hourly_rate r")
    case (Inl e)
    then show ?thesis by (cases vs) auto
  next
    case (Inr v)
    show ?thesis
    proof (cases "hourly rows")
      case (Inl e)
      with Cons.IH Inr show ?thesis by (cases vs) auto
    next
      case inr: (Inr ws)
      with Cons.IH [of ws] have "map hourly_rate rows = map Inr ws" by simp
      with Cons.IH Inr inr show ?thesis by (cases vs) auto
    qed
  qed
qed

section \<open>Properties of the texts of dates\<close>

lemma append_less_same_length:
  fixes xs ys :: "'a::linorder list"
  assumes "length xs = length ys"
  shows "(xs @ us < ys @ vs) = (xs < ys \<or> (xs = ys \<and> us < vs))"
  using assms by (induction xs ys rule: list_induct2) auto

lemma length_digits_w [simp]: "length (digits_w w n) = w"
  by (induction w arbitrary: n) simp_all

lemma digit_char_less: "j < 10 \<Longrightarrow> k < 10 \<Longrightarrow> (digit_char j < digit_char k) = (j < k)"
  by (simp add: less_char_def of_char_digit_char)

lemma digit_char_eq:
  assumes "j < 10" "k < 10"
  shows "(digit_char j = digit_char k) = (j = k)"
proof
  assume "digit_char j = digit_char k"
  then have "(of_char (digit_char j) :: nat) = of_char (digit_char k)"
    by (rule arg_cong)
  then have "48 + j = 48 + k"
    by (simp only: of_char_digit_char [OF assms(1)] of_char_digit_char [OF assms(2)])
  then show "j = k" by (simp only: add_left_cancel)
next
  assume "j = k"
  then show "digit_char j = digit_char k" by (rule arg_cong)
qed

lemma nat_eq_by_digits:
  "((a::nat) = b) = (a div 10 = b div 10 \<and> a mod 10 = b mod 10)"
proof
  assume "a div 10 = b div 10 \<and> a mod 10 = b mod 10"
  then have "a div 10 * 10 + a mod 10 = b div 10 * 10 + b mod 10" by simp
  then show "a = b" by (simp only: div_mult_mod_eq)
qed simp

lemma nat_less_by_digits:
  "((a::nat) < b) = (a div 10 < b div 10 \<or> (a div 10 = b div 10 \<and> a mod 10 < b mod 10))"
proof -
  define qa ra qb rb where "qa = a div 10" and "ra = a mod 10" and "qb = b div 10"
    and "rb = b mod 10"
  have a: "a = 10 * qa + ra" and b: "b = 10 * qb + rb" and r: "ra < 10" "rb < 10"
    by (simp_all add: qa_def ra_def qb_def rb_def)
  have main: "(10 * qa + ra < 10 * qb + rb) = (qa < qb \<or> (qa = qb \<and> ra < rb))"
    using r by arith
  have "(a < b) = (qa < qb \<or> (qa = qb \<and> ra < rb))"
    by (subst a, subst b) (rule main)
  then show ?thesis
    by (simp only: qa_def ra_def qb_def rb_def)
qed

lemma digits_w_eq:
  "a < 10 ^ w \<Longrightarrow> b < 10 ^ w \<Longrightarrow> (digits_w w a = digits_w w b) = (a = b)"
proof (induction w arbitrary: a b)
  case 0
  then show ?case by simp
next
  case (Suc w)
  from Suc.prems have "a div 10 < 10 ^ w" "b div 10 < 10 ^ w"
    by (simp_all add: less_mult_imp_div_less mult.commute)
  with Suc.IH have "(digits_w w (a div 10) = digits_w w (b div 10)) = (a div 10 = b div 10)"
    by blast
  moreover have "(a = b) = (a div 10 = b div 10 \<and> a mod 10 = b mod 10)"
    by (rule nat_eq_by_digits)
  ultimately show ?case
    by (simp add: digit_char_eq)
qed

lemma digits_w_less:
  "a < 10 ^ w \<Longrightarrow> b < 10 ^ w \<Longrightarrow> (digits_w w a < digits_w w b) = (a < b)"
proof (induction w arbitrary: a b)
  case 0
  then show ?case by simp
next
  case (Suc w)
  from Suc.prems have small: "a div 10 < 10 ^ w" "b div 10 < 10 ^ w"
    by (simp_all add: less_mult_imp_div_less mult.commute)
  with Suc.IH have lt: "(digits_w w (a div 10) < digits_w w (b div 10)) = (a div 10 < b div 10)"
    by blast
  from small have eq: "(digits_w w (a div 10) = digits_w w (b div 10)) = (a div 10 = b div 10)"
    by (rule digits_w_eq)
  have ar: "(a < b) = (a div 10 < b div 10 \<or> (a div 10 = b div 10 \<and> a mod 10 < b mod 10))"
    by (rule nat_less_by_digits)
  show ?case
    by (simp add: append_less_same_length lt eq digit_char_less ar)
qed

lemma digits_w_zero: "digits_w w 0 = replicate w (CHR ''0'')"
proof (induction w)
  case 0
  then show ?case by simp
next
  case (Suc w)
  then show ?case
    by (simp add: digit_char_values replicate_append_same)
qed

lemma zfill_str_nat: "0 < w \<Longrightarrow> n < 10 ^ w \<Longrightarrow> zfill w (str_nat n) = digits_w w n"
proof (induction w arbitrary: n)
  case 0
  then show ?case by simp
next
  case (Suc w)
  show ?case
  proof (cases "n < 10")
    case True
    then show ?thesis
      by (simp add: str_nat_small zfill_def digits_w_zero)
  next
    case False
    with Suc.prems have small: "n div 10 < 10 ^ w" and w: "0 < w"
      by (auto simp: less_mult_imp_div_less mult.commute intro: Nat.gr0I)
    with Suc.IH have ih: "zfill w (str_nat (n div 10)) = digits_w w (n div 10)" by blast
    from False show ?thesis
      by (simp add: str_nat_large zfill_def ih [unfolded zfill_def])
  qed
qed


lemma valid_date_bounds:
  assumes "valid_date d"
  shows "year d < 10 ^ 4" "month d < 10 ^ 2" "day d < 10 ^ 2"
    "1 \<le> month d" "month d \<le> 12" "1 \<le> day d" "day d \<le> 31"
  using assms by (simp_all add: valid_date_def days_in_month_def split: if_splits)










lemma digits_w_all_digit: "\<forall>c \<in> set (digits_w w n). is_digit c"
  by (induction w arbitrary: n) (simp_all add: is_digit_digit_char)

lemma digits_w_value:
  "foldl (\<lambda>a c. 10 * a + digit_val c) 0 (digits_w w n) = n mod 10 ^ w"
proof (induction w arbitrary: n)
  case 0
  then show ?case by simp
next
  case (Suc w)
  have "n mod (10 * 10 ^ w) = 10 * (n div 10 mod 10 ^ w) + n mod 10"
    by (rule mod_mult2_eq)
  with Suc.IH [of "n div 10"] show ?case
    by (simp add: digit_val_digit_char)
qed

lemma list_of_length_4: "length xs = 4 \<Longrightarrow> \<exists>a b c d. xs = [a, b, c, d]"
  by (auto simp: length_Suc_conv numeral_eq_Suc)

lemma list_of_length_2: "length xs = 2 \<Longrightarrow> \<exists>a b. xs = [a, b]"
  by (auto simp: length_Suc_conv numeral_eq_Suc)

lemma digits_w_4:
  assumes "n < 10 ^ 4"
  obtains a b c d where "digits_w 4 n = [a, b, c, d]"
    and "is_digit a" "is_digit b" "is_digit c" "is_digit d"
    and "1000 * digit_val a + 100 * digit_val b + 10 * digit_val c + digit_val d = n"
proof -
  have "length (digits_w 4 n) = 4" by simp
  then have "\<exists>a b c d. digits_w 4 n = [a, b, c, d]" by (rule list_of_length_4)
  then obtain a b c d where e: "digits_w 4 n = [a, b, c, d]" by blast
  from digits_w_all_digit [of 4 n, unfolded e]
  have dg: "is_digit a" "is_digit b" "is_digit c" "is_digit d"
    by simp_all
  from digits_w_value [of 4 n, unfolded e] assms
  have "1000 * digit_val a + 100 * digit_val b + 10 * digit_val c + digit_val d = n"
    by simp
  with e dg show ?thesis by (rule that)
qed

lemma digits_w_2:
  assumes "n < 10 ^ 2"
  obtains a b where "digits_w 2 n = [a, b]" and "is_digit a" "is_digit b"
    and "10 * digit_val a + digit_val b = n"
proof -
  have "length (digits_w 2 n) = 2" by simp
  then have "\<exists>a b. digits_w 2 n = [a, b]" by (rule list_of_length_2)
  then obtain a b where e: "digits_w 2 n = [a, b]" by blast
  from digits_w_all_digit [of 2 n, unfolded e] have dg: "is_digit a" "is_digit b"
    by simp_all
  from digits_w_value [of 2 n, unfolded e] assms have "10 * digit_val a + digit_val b = n"
    by simp
  with e dg show ?thesis by (rule that)
qed

lemma isoformat_digits:
  assumes "valid_date d"
  shows "isoformat d =
     digits_w 4 (year d) @ ''-'' @ digits_w 2 (month d) @ ''-'' @ digits_w 2 (day d)"
  using valid_date_bounds [OF assms]
  by (simp add: isoformat_def zfill_str_nat)

lemma ym_text_digits:
  assumes "y < 10 ^ 4" "m < 10 ^ 2"
  shows "ym_text y m = digits_w 4 y @ ''-'' @ digits_w 2 m"
  using assms by (simp add: ym_text_def zfill_str_nat)

lemma ym_text_eq:
  assumes "y < 10 ^ 4" "m < 10 ^ 2" "y' < 10 ^ 4" "m' < 10 ^ 2"
  shows "(ym_text y m = ym_text y' m') = (y = y' \<and> m = m')"
  using assms by (simp add: ym_text_digits digits_w_eq)

lemma isoformat_less:
  assumes "valid_date a" "valid_date b"
  shows "(isoformat a < isoformat b) = date_less a b"
proof -
  note ba = valid_date_bounds [OF assms(1)] and bb = valid_date_bounds [OF assms(2)]
  have "(isoformat a < isoformat b) =
      (digits_w 4 (year a) < digits_w 4 (year b) \<or>
       (digits_w 4 (year a) = digits_w 4 (year b) \<and>
        (digits_w 2 (month a) < digits_w 2 (month b) \<or>
         (digits_w 2 (month a) = digits_w 2 (month b) \<and>
          digits_w 2 (day a) < digits_w 2 (day b)))))"
    by (simp add: isoformat_digits assms append_less_same_length)
  also have "\<dots> = date_less a b"
    using ba bb by (simp add: digits_w_less digits_w_eq date_less_def)
  finally show ?thesis .
qed

lemma isoformat_eq:
  assumes "valid_date a" "valid_date b"
  shows "(isoformat a = isoformat b) = (a = b)"
proof -
  note ba = valid_date_bounds [OF assms(1)] and bb = valid_date_bounds [OF assms(2)]
  have "(isoformat a = isoformat b) =
      (digits_w 4 (year a) = digits_w 4 (year b) \<and>
       digits_w 2 (month a) = digits_w 2 (month b) \<and>
       digits_w 2 (day a) = digits_w 2 (day b))"
    by (simp add: isoformat_digits assms)
  also have "\<dots> = (year a = year b \<and> month a = month b \<and> day a = day b)"
    using ba bb by (simp add: digits_w_eq)
  also have "\<dots> = (a = b)"
    by auto
  finally show ?thesis .
qed

lemma sqlite_strftime_ym_isoformat:
  assumes "valid_date d"
  shows "sqlite_strftime_ym (isoformat d) = Some (ym_text (year d) (month d))"
proof -
  note b = valid_date_bounds [OF assms]
  from assms have dm: "day d \<le> days_in_month (year d) (month d)"
    by (simp add: valid_date_def)
  from b(1) obtain y1 y2 y3 y4 where y: "digits_w 4 (year d) = [y1, y2, y3, y4]"
    and yd: "is_digit y1" "is_digit y2" "is_digit y3" "is_digit y4"
    and yv: "1000 * digit_val y1 + 100 * digit_val y2 + 10 * digit_val y3 + digit_val y4 = year d"
    by (rule digits_w_4)
  from b(2) obtain m1 m2 where m: "digits_w 2 (month d) = [m1, m2]"
    and md: "is_digit m1" "is_digit m2" and mv: "10 * digit_val m1 + digit_val m2 = month d"
    by (rule digits_w_2)
  from b(3) obtain d1 d2 where dd: "digits_w 2 (day d) = [d1, d2]"
    and ddg: "is_digit d1" "is_digit d2" and dv: "10 * digit_val d1 + digit_val d2 = day d"
    by (rule digits_w_2)
  have iso: "isoformat d = [y1, y2, y3, y4, CHR ''-'', m1, m2, CHR ''-'', d1, d2]"
    by (simp add: isoformat_digits [OF assms] y m dd)
  show ?thesis
    unfolding iso sqlite_strftime_ym_def
    using yd md ddg b(4-7) dm
    by (simp add: two_digits_def yv mv dv Let_def)
qed

lemma split_on_no_sep: "sep \<notin> set xs \<Longrightarrow> split_on sep xs = [xs]"
  by (induction xs) auto

lemma split_on_append:
  "sep \<notin> set xs \<Longrightarrow> split_on sep (xs @ sep # ys) = xs # split_on sep ys"
  by (induction xs) auto

lemma dash_not_digit: "is_digit c \<Longrightarrow> c \<noteq> CHR ''-''"
  by (auto simp: is_digit_def)

lemma dash_notin_digits_w: "CHR ''-'' \<notin> set (digits_w w n)"
  using digits_w_all_digit [of w n] dash_not_digit by blast

lemma split_ym_text:
  assumes "y < 10 ^ 4" "m < 10 ^ 2"
  shows "split_on CHR ''-'' (ym_text y m) = [digits_w 4 y, digits_w 2 m]"
  by (simp add: ym_text_digits [OF assms] split_on_append split_on_no_sep dash_notin_digits_w)

lemma ym_text_not_all:
  assumes "y < 10 ^ 4" "m < 10 ^ 2"
  shows "ym_text y m \<noteq> ALL_MONTHS"
proof
  assume e: "ym_text y m = ALL_MONTHS"
  have "CHR ''-'' \<in> set (ym_text y m)"
    by (simp add: ym_text_digits [OF assms])
  with e have "CHR ''-'' \<in> set ALL_MONTHS" by simp
  then show False by (simp add: ALL_MONTHS_def)
qed

lemma where_month_iso:
  assumes "y < 10 ^ 4" "m < 10 ^ 2" "valid_date d"
  shows "(sqlite_strftime_ym (isoformat d) = Some (ym_text y m)) = (year d = y \<and> month d = m)"
  using valid_date_bounds [OF assms(3)] assms(1,2)
  by (simp add: sqlite_strftime_ym_isoformat [OF assms(3)] ym_text_eq)

section \<open>Properties of the grouped query\<close>

lemma sum_step_value: "sum_step acc xs = Inr v \<Longrightarrow> v = acc + sum_list xs"
proof (induction xs arbitrary: acc)
  case Nil
  then show ?case by simp
next
  case (Cons x xs)
  from Cons.prems have "sum_step (acc + x) xs = Inr v" by (simp split: if_splits)
  then have "v = acc + x + sum_list xs" by (rule Cons.IH)
  then show ?case by simp
qed

lemma sum_step_error: "sum_step acc xs = Inl e \<Longrightarrow> e = OperationalError"
  by (induction xs arbitrary: acc) (auto split: if_splits)

lemma sum_abs_nonneg: "0 \<le> sum_list (map abs (xs :: int list))"
  by (induction xs) simp_all

lemma sum_step_fit:
  "\<bar>acc\<bar> + sum_list (map abs xs) < 2 ^ 63 \<Longrightarrow> sum_step acc xs = Inr (acc + sum_list xs)"
proof (induction xs arbitrary: acc)
  case Nil
  then show ?case by simp
next
  case (Cons x xs)
  note nn = sum_abs_nonneg [of xs]
  from Cons.prems have p: "\<bar>acc\<bar> + \<bar>x\<bar> + sum_list (map abs xs) < 2 ^ 63" by simp
  have tri: "\<bar>acc + x\<bar> \<le> \<bar>acc\<bar> + \<bar>x\<bar>" by (rule abs_triangle_ineq)
  from p nn tri have "\<bar>acc + x\<bar> < 2 ^ 63" by linarith
  then have fit: "sqlite_int64 (acc + x)" by (simp add: sqlite_int64_def abs_less_iff)
  from p tri have "\<bar>acc + x\<bar> + sum_list (map abs xs) < 2 ^ 63" by linarith
  then have "sum_step (acc + x) xs = Inr (acc + x + sum_list xs)" by (rule Cons.IH)
  with fit show ?case by (simp add: add.assoc)
qed

lemma sum_abs_filter_le:
  "sum_list (map (\<lambda>r. \<bar>f r :: int\<bar>) (filter P xs)) \<le> sum_list (map (\<lambda>r. \<bar>f r\<bar>) xs)"
  by (induction xs) auto

lemma sqlite_sum_fit:
  assumes "sum_list (map (\<lambda>r. \<bar>f r\<bar>) rows) < 2 ^ 63"
  shows "sqlite_sum (map f (filter P rows)) = Inr (sum_list (map f (filter P rows)))"
proof -
  have "sum_list (map abs (map f (filter P rows))) = sum_list (map (\<lambda>r. \<bar>f r\<bar>) (filter P rows))"
    by (simp add: comp_def)
  also have "\<dots> \<le> sum_list (map (\<lambda>r. \<bar>f r\<bar>) rows)" by (rule sum_abs_filter_le)
  finally have "\<bar>0\<bar> + sum_list (map abs (map f (filter P rows))) < 2 ^ 63"
    using assms by simp
  then have "sum_step 0 (map f (filter P rows)) = Inr (0 + sum_list (map f (filter P rows)))"
    by (rule sum_step_fit)
  then show ?thesis by (simp add: sqlite_sum_def)
qed

lemma collect_iff_map: "(collect f xs = Inr ys) = (map f xs = map Inr ys)"
proof (induction xs arbitrary: ys)
  case Nil
  then show ?case by auto
next
  case (Cons x xs)
  show ?case
  proof (cases "f x")
    case (Inl e)
    then show ?thesis by (cases ys) auto
  next
    case (Inr v)
    show ?thesis
    proof (cases "collect f xs")
      case (Inl e)
      with Cons.IH Inr show ?thesis by (cases ys) auto
    next
      case inr: (Inr ws)
      with Cons.IH [of ws] have "map f xs = map Inr ws" by simp
      with Cons.IH Inr inr show ?thesis by (cases ys) auto
    qed
  qed
qed

lemma collect_error: "collect f xs = Inl e \<Longrightarrow> \<exists>x \<in> set xs. f x = Inl e"
  by (induction xs) (auto split: sum.splits)

lemma collect_all: "\<forall>x \<in> set xs. f x = Inr (g x) \<Longrightarrow> collect f xs = Inr (map g xs)"
  by (simp add: collect_iff_map)

lemma collect_value:
  assumes "collect f xs = Inr ys" and "\<And>x v. f x = Inr v \<Longrightarrow> v = g x"
  shows "ys = map g xs"
proof -
  from assms(1) have m: "map f xs = map Inr ys" by (simp add: collect_iff_map)
  then have len: "length xs = length ys" by (rule map_eq_imp_length_eq)
  show ?thesis
  proof (rule nth_equalityI)
    show "length ys = length (map g xs)" using len by simp
  next
    fix i assume i: "i < length ys"
    from m have "map f xs ! i = map Inr ys ! i" by simp
    with i len have "f (xs ! i) = Inr (ys ! i)" by simp
    then have "ys ! i = g (xs ! i)" by (rule assms(2))
    with i len show "ys ! i = map g xs ! i" by simp
  qed
qed

lemma group_row_value:
  "group_row rows d = Inr v \<Longrightarrow>
     v = (d, sum_list (map duration (filter (\<lambda>r. created_at r = d) rows)),
             sum_list (map earned (filter (\<lambda>r. created_at r = d) rows)))"
  by (auto simp: group_row_def sqlite_sum_def split: sum.splits dest: sum_step_value)

lemma group_row_error: "group_row rows d = Inl e \<Longrightarrow> e = OperationalError"
  by (auto simp: group_row_def sqlite_sum_def split: sum.splits dest: sum_step_error)

lemma group_row_fit:
  assumes "sum_list (map (\<lambda>r. \<bar>duration r\<bar>) rows) < 2 ^ 63"
    and "sum_list (map (\<lambda>r. \<bar>earned r\<bar>) rows) < 2 ^ 63"
  shows "\<exists>v. group_row rows d = Inr v"
  by (simp add: group_row_def sqlite_sum_fit [OF assms(1)] sqlite_sum_fit [OF assms(2)])

lemma group_by_error: "group_by_created_at rows = Inl e \<Longrightarrow> e = OperationalError"
  by (auto simp: group_by_created_at_def dest!: collect_error dest: group_row_error)

lemma group_by_fit:
  assumes "sum_list (map (\<lambda>r. \<bar>duration r\<bar>) rows) < 2 ^ 63"
    and "sum_list (map (\<lambda>r. \<bar>earned r\<bar>) rows) < 2 ^ 63"
  shows "\<exists>res. group_by_created_at rows = Inr res"
proof (cases "group_by_created_at rows")
  case (Inl e)
  then obtain d where "group_row rows d = Inl e"
    by (auto simp: group_by_created_at_def dest!: collect_error)
  with group_row_fit [OF assms, of d] show ?thesis by simp
next
  case (Inr res)
  then show ?thesis by blast
qed

lemma group_by_value:
  assumes "group_by_created_at rows = Inr res"
  shows "res = map (\<lambda>d. (d, sum_list (map duration (filter (\<lambda>r. created_at r = d) rows)),
                          sum_list (map earned (filter (\<lambda>r. created_at r = d) rows))))
                   (sort (remdups (map created_at rows)))"
  using assms unfolding group_by_created_at_def
  by (rule collect_value) (rule group_row_value)

lemma group_by_rows:
  assumes "group_by_created_at rows = Inr res"
  shows "sorted_wrt (<) (map fst res)"
    and "set (map fst res) = created_at ` set rows"
    and "\<forall>d dur earn. (d, dur, earn) \<in> set res \<longrightarrow>
           dur = sum_list (map duration (filter (\<lambda>r. created_at r = d) rows)) \<and>
           earn = sum_list (map earned (filter (\<lambda>r. created_at r = d) rows))"
proof -
  note v = group_by_value [OF assms]
  have f: "map fst res = sort (remdups (map created_at rows))"
    by (subst v) (simp add: comp_def)
  show "sorted_wrt (<) (map fst res)"
    by (simp add: f strict_sorted_iff)
  show "set (map fst res) = created_at ` set rows"
    by (simp add: f)
  show "\<forall>d dur earn. (d, dur, earn) \<in> set res \<longrightarrow>
           dur = sum_list (map duration (filter (\<lambda>r. created_at r = d) rows)) \<and>
           earn = sum_list (map earned (filter (\<lambda>r. created_at r = d) rows))"
    by (subst v) auto
qed

lemma where_month_group:
  assumes "d \<in> created_at ` set (where_month f rows)"
  shows "filter (\<lambda>r. created_at r = d) (where_month f rows) = filter (\<lambda>r. created_at r = d) rows"
proof -
  from assms have m: "sqlite_strftime_ym d = Some f"
    by (auto simp: where_month_def)
  show ?thesis
    unfolding where_month_def filter_filter
    by (rule filter_cong) (use m in auto)
qed

lemma sum_abs_where_month:
  "sum_list (map (\<lambda>r. \<bar>g r :: int\<bar>) (where_month f rows)) \<le> sum_list (map (\<lambda>r. \<bar>g r\<bar>) rows)"
  unfolding where_month_def by (rule sum_abs_filter_le)

section \<open>The claims\<close>

text \<open>
  C1, as amended. For a location and for counts, a duration, a gain and earnings that
  each fit a signed 64-bit integer, \<^verbatim>\<open>add_session\<close> computes the gain as the end
  count minus the start count, with no validation, and the earnings as the gain times
  the price of the location in \<^verbatim>\<open>SPOTS\<close>, or times 0 when the location is
  absent; it appends exactly one row, stamped with today's date, and returns the pair
  of gain and earnings. When one of the integers does not fit, the \<^verbatim>\<open>INSERT\<close>
  raises \<^verbatim>\<open>OverflowError\<close>: no row is appended and nothing is returned. The price
  table is left alone in both cases.
\<close>

theorem add_session_record:
  "(sqlite_int64 a \<and> sqlite_int64 b \<and> sqlite_int64 dur \<and> sqlite_int64 (b - a) \<and>
    sqlite_int64 ((b - a) * dict_get (SPOTS s) sp 0) \<longrightarrow>
      snd (add_session today s sp a b dur) = Inr (b - a, (b - a) * dict_get (SPOTS s) sp 0) \<and>
      sessions (fst (add_session today s sp a b dur)) =
        sessions s @
          [\<lparr>row_id = next_row_id (sessions s), spot = sp, trash_start = a, trash_end = b,
            duration = dur, trash_gained = b - a,
            earned = (b - a) * dict_get (SPOTS s) sp 0, created_at = isoformat today\<rparr>]) \<and>
   (\<not> (sqlite_int64 a \<and> sqlite_int64 b \<and> sqlite_int64 dur \<and> sqlite_int64 (b - a) \<and>
       sqlite_int64 ((b - a) * dict_get (SPOTS s) sp 0)) \<longrightarrow>
      snd (add_session today s sp a b dur) = Inl OverflowError \<and>
      fst (add_session today s sp a b dur) = s) \<and>
   (map_of (SPOTS s) sp = None \<longrightarrow> dict_get (SPOTS s) sp 0 = 0) \<and>
   (\<forall>p. map_of (SPOTS s) sp = Some p \<longrightarrow> dict_get (SPOTS s) sp 0 = p) \<and>
   SPOTS (fst (add_session today s sp a b dur)) = SPOTS s \<and>
   spot_file (fst (add_session today s sp a b dur)) = spot_file s"
  by (simp add: add_session_def Let_def dict_get_def)

theorem add_session_record_witness:
  "sqlite_int64 100 \<and> sqlite_int64 150 \<and> sqlite_int64 5 \<and> sqlite_int64 (150 - 100) \<and>
   sqlite_int64 ((150 - 100) *
     dict_get (SPOTS (init_state [(''Sherekhan'', 1200)] None [])) ''Sherekhan'' 0) \<and>
   map_of (SPOTS (init_state [(''Sherekhan'', 1200)] None [])) ''Sherekhan'' = Some 1200 \<and>
   snd (add_session \<lparr>year = 2024, month = 5, day = 3\<rparr>
          (init_state [(''Sherekhan'', 1200)] None []) ''Sherekhan'' 100 150 5) =
     Inr (50, 60000) \<and>
   map created_at (sessions (fst (add_session \<lparr>year = 2024, month = 5, day = 3\<rparr>
          (init_state [(''Sherekhan'', 1200)] None []) ''Sherekhan'' 100 150 5))) =
     [''2024-05-03''] \<and>
   map_of (SPOTS (init_state [(''Sherekhan'', 1200)] None [])) ''Valencia'' = None \<and>
   snd (add_session \<lparr>year = 2024, month = 5, day = 3\<rparr>
          (init_state [(''Sherekhan'', 1200)] None []) ''Valencia'' 150 100 5) = Inr (- 50, 0) \<and>
   \<not> sqlite_int64 (9223372036854775808 - 0) \<and>
   snd (add_session \<lparr>year = 2024, month = 5, day = 3\<rparr>
          (init_state [(''Sherekhan'', 1200)] None []) ''Sherekhan'' 0 9223372036854775808 5) =
     Inl OverflowError"
proof -
  have iso: "isoformat \<lparr>year = 2024, month = 5, day = 3\<rparr> = ''2024-05-03''"
    by code_simp
  show ?thesis
    using add_session_record [of 100 150 5 "init_state [(''Sherekhan'', 1200)] None []"
        "''Sherekhan''" "\<lparr>year = 2024, month = 5, day = 3\<rparr>"]
      add_session_record [of 150 100 5 "init_state [(''Sherekhan'', 1200)] None []"
        "''Valencia''" "\<lparr>year = 2024, month = 5, day = 3\<rparr>"]
      add_session_record [of 0 9223372036854775808 5
        "init_state [(''Sherekhan'', 1200)] None []"
        "''Sherekhan''" "\<lparr>year = 2024, month = 5, day = 3\<rparr>"]
    by (simp add: iso init_state_def dict_get_def sqlite_int64_def)
qed

text \<open>
  The claim C1 as the specification states it fails when the earnings leave the 64-bit
  range: at a price of \<open>10\<^sup>1\<^sup>0\<close> and a gain of \<open>10\<^sup>9\<close> no row is appended and
  no pair is returned.
\<close>

theorem add_session_overflow_counterexample:
  "snd (add_session \<lparr>year = 2024, month = 5, day = 3\<rparr>
          (init_state [(''A'', 10000000000)] None []) ''A'' 0 1000000000 5) = Inl OverflowError \<and>
   sessions (fst (add_session \<lparr>year = 2024, month = 5, day = 3\<rparr>
          (init_state [(''A'', 10000000000)] None []) ''A'' 0 1000000000 5)) = []"
  by (simp add: add_session_def Let_def dict_get_def init_state_def sqlite_int64_def)

text \<open>
  C2. No action of the price table editor, and no run of such actions, changes the table
  of sessions: every stored row keeps its earnings and its location, and a row written by
  \<^verbatim>\<open>add_session\<close> keeps the earnings and the location it was written with.
\<close>

theorem spot_ops_keep_sessions:
  "sessions (apply_spot_ops ops s) = sessions s \<and>
   (\<forall>i < length (sessions s).
      earned (sessions (apply_spot_ops ops s) ! i) = earned (sessions s ! i) \<and>
      spot (sessions (apply_spot_ops ops s) ! i) = spot (sessions s ! i)) \<and>
   (\<forall>today sp a b dur g e.
      snd (add_session today s sp a b dur) = Inr (g, e) \<longrightarrow>
      earned (last (sessions (apply_spot_ops ops (fst (add_session today s sp a b dur))))) = e \<and>
      spot (last (sessions (apply_spot_ops ops (fst (add_session today s sp a b dur))))) = sp)"
  by (auto simp: apply_spot_ops_def sessions_fold_spot_op add_session_def Let_def
      split: if_splits)

theorem spot_ops_keep_sessions_witness:
  "map fst (SPOTS (apply_spot_ops [UpdateSpot [0] ''B'' ''20'', AddSpot ''C'' ''5'', DeleteSpot [0]]
      (fst (add_session \<lparr>year = 2024, month = 5, day = 3\<rparr>
             (init_state [(''A'', 10)] None []) ''A'' 100 150 5)))) = [''C''] \<and>
   map spot (sessions (apply_spot_ops [UpdateSpot [0] ''B'' ''20'', AddSpot ''C'' ''5'', DeleteSpot [0]]
      (fst (add_session \<lparr>year = 2024, month = 5, day = 3\<rparr>
             (init_state [(''A'', 10)] None []) ''A'' 100 150 5)))) = [''A''] \<and>
   map earned (sessions (apply_spot_ops [UpdateSpot [0] ''B'' ''20'', AddSpot ''C'' ''5'', DeleteSpot [0]]
      (fst (add_session \<lparr>year = 2024, month = 5, day = 3\<rparr>
             (init_state [(''A'', 10)] None []) ''A'' 100 150 5)))) = [500]"
proof -
  have ev: "map fst (SPOTS (apply_spot_ops [UpdateSpot [0] ''B'' ''20'', AddSpot ''C'' ''5'', DeleteSpot [0]]
      (fst (add_session \<lparr>year = 2024, month = 5, day = 3\<rparr>
             (init_state [(''A'', 10)] None []) ''A'' 100 150 5)))) = [''C'']"
    by code_simp
  note keep = spot_ops_keep_sessions
      [of "[UpdateSpot [0] ''B'' ''20'', AddSpot ''C'' ''5'', DeleteSpot [0]]"
        "fst (add_session \<lparr>year = 2024, month = 5, day = 3\<rparr>
             (init_state [(''A'', 10)] None []) ''A'' 100 150 5)", THEN conjunct1]
  show ?thesis
    unfolding keep ev
    by (simp add: add_session_def Let_def init_state_def dict_get_def sqlite_int64_def)
qed

text \<open>
  C6. \<^verbatim>\<open>App.add_spot\<close> shows an error dialog and leaves the whole state, with the
  price table in memory and on disk, as it was whenever the name (after
  \<^verbatim>\<open>strip\<close>) is empty, the price does not parse as an integer, or the name is
  already a key of the table. White space and digits are those of Unicode: a name of
  ideographic spaces is empty, a price in full-width digits parses. Only when all three checks pass is the entry appended to
  the table and the table written to the file.
\<close>

theorem add_spot_validation:
  "(strip name_entry = [] \<or> py_int price_entry = None \<or> dict_in (strip name_entry) (SPOTS s)
      \<longrightarrow> (\<exists>d. fst (add_spot s name_entry price_entry) = ShowError d) \<and>
          snd (add_spot s name_entry price_entry) = s) \<and>
   (strip name_entry \<noteq> [] \<and> dict_in (strip name_entry) (SPOTS s) = False \<longrightarrow>
      (\<forall>price. py_int price_entry = Some price \<longrightarrow>
         fst (add_spot s name_entry price_entry) = Done \<and>
         SPOTS (snd (add_spot s name_entry price_entry)) = SPOTS s @ [(strip name_entry, price)] \<and>
         spot_file (snd (add_spot s name_entry price_entry)) =
           Some (SPOTS s @ [(strip name_entry, price)]) \<and>
         sessions (snd (add_spot s name_entry price_entry)) = sessions s))"
  by (auto simp: add_spot_def Let_def dict_set_fresh save_spots_def update_spot_listbox_def
      split: option.splits)

theorem add_spot_validation_witness:
  "dict_in (strip '' A '') (SPOTS (init_state [(''A'', 10)] None [])) \<and>
   snd (add_spot (init_state [(''A'', 10)] None []) '' A '' ''20'') = init_state [(''A'', 10)] None [] \<and>
   dict_in (strip [CHR ''A'', CHR 0xE3, CHR 0x80, CHR 0x80]) (SPOTS (init_state [(''A'', 10)] None [])) \<and>
   snd (add_spot (init_state [(''A'', 10)] None []) [CHR ''A'', CHR 0xE3, CHR 0x80, CHR 0x80] ''20'') =
     init_state [(''A'', 10)] None [] \<and>
   py_int ''1.5'' = None \<and>
   snd (add_spot (init_state [(''A'', 10)] None []) ''B'' ''1.5'') = init_state [(''A'', 10)] None [] \<and>
   strip [CHR 0xE3, CHR 0x80, CHR 0x80, CHR '' ''] = [] \<and>
   snd (add_spot (init_state [(''A'', 10)] None []) [CHR 0xE3, CHR 0x80, CHR 0x80, CHR '' ''] ''20'') =
     init_state [(''A'', 10)] None [] \<and>
   strip ''B'' \<noteq> [] \<and>
   py_int [CHR 0xEF, CHR 0xBC, CHR 0x92, CHR 0xEF, CHR 0xBC, CHR 0x90] = Some 20 \<and>
   fst (add_spot (init_state [(''A'', 10)] None []) ''B''
          [CHR 0xEF, CHR 0xBC, CHR 0x92, CHR 0xEF, CHR 0xBC, CHR 0x90]) = Done \<and>
   SPOTS (snd (add_spot (init_state [(''A'', 10)] None []) ''B''
          [CHR 0xEF, CHR 0xBC, CHR 0x92, CHR 0xEF, CHR 0xBC, CHR 0x90])) =
     [(''A'', 10), (''B'', 20)] \<and>
   spot_file (snd (add_spot (init_state [(''A'', 10)] None []) ''B''
          [CHR 0xEF, CHR 0xBC, CHR 0x92, CHR 0xEF, CHR 0xBC, CHR 0x90])) =
     Some [(''A'', 10), (''B'', 20)]"
proof -
  have e1: "strip '' A '' = ''A''"
    and e2: "strip [CHR ''A'', CHR 0xE3, CHR 0x80, CHR 0x80] = ''A''"
    and e3: "py_int ''1.5'' = None"
    and e4: "strip [CHR 0xE3, CHR 0x80, CHR 0x80, CHR '' ''] = []"
    and e5: "strip ''B'' = ''B''"
    and e6: "py_int [CHR 0xEF, CHR 0xBC, CHR 0x92, CHR 0xEF, CHR 0xBC, CHR 0x90] = Some 20"
    and e7: "py_int ''20'' = Some 20"
    by code_simp+
  show ?thesis
    using add_spot_validation [of "'' A ''" "''20''" "init_state [(''A'', 10)] None []"]
      add_spot_validation [of "[CHR ''A'', CHR 0xE3, CHR 0x80, CHR 0x80]" "''20''"
        "init_state [(''A'', 10)] None []"]
      add_spot_validation [of "''B''" "''1.5''" "init_state [(''A'', 10)] None []"]
      add_spot_validation [of "[CHR 0xE3, CHR 0x80, CHR 0x80, CHR '' '']" "''20''"
        "init_state [(''A'', 10)] None []"]
      add_spot_validation [of "''B''" "[CHR 0xEF, CHR 0xBC, CHR 0x92, CHR 0xEF, CHR 0xBC, CHR 0x90]"
        "init_state [(''A'', 10)] None []"]
    by (simp add: e1 e2 e3 e4 e5 e6 e7 init_state_def dict_in_def)
qed

text \<open>
  C7, as amended. \<^verbatim>\<open>App.resume_timer\<close> does nothing when the timer is running. When
  the timer is not running it sets the timer running, adds a minute at once and
  schedules the next tick: from \<open>Paused\<close> and from \<open>Idle\<close> alike, since the method
  tests the flag \<^verbatim>\<open>running\<close> only.
\<close>

theorem resume_timer_cases:
  "(running s \<longrightarrow> resume_timer s = s) \<and>
   (\<not> running s \<longrightarrow>
      phase_of (resume_timer s) = Running \<and>
      minutes (resume_timer s) = minutes s + 1 \<and>
      timer_id (resume_timer s) = Some (after_count s) \<and>
      after_queue (resume_timer s) = after_queue s @ [after_count s] \<and>
      app_trash_start (resume_timer s) = app_trash_start s)"
  by (simp add: resume_timer_def update_timer_def phase_of_def)

theorem resume_timer_cases_witness:
  "phase_of (pause_timer (snd (start_timer (init_state [] None []) ''100''))) = Paused \<and>
   phase_of (resume_timer (pause_timer (snd (start_timer (init_state [] None []) ''100'')))) = Running \<and>
   minutes (resume_timer (pause_timer (snd (start_timer (init_state [] None []) ''100'')))) = 2 \<and>
   running (snd (start_timer (init_state [] None []) ''100'')) \<and>
   resume_timer (snd (start_timer (init_state [] None []) ''100'')) =
     snd (start_timer (init_state [] None []) ''100'')"
proof -
  have e: "py_int ''100'' = Some 100" by code_simp
  show ?thesis
    using resume_timer_cases [of "pause_timer (snd (start_timer (init_state [] None []) ''100''))"]
      resume_timer_cases [of "snd (start_timer (init_state [] None []) ''100'')"]
    by (simp add: e start_timer_def pause_timer_def update_timer_def init_state_def phase_of_def)
qed

text \<open>
  The claim C7 as the specification states it fails: in the state after
  \<^verbatim>\<open>App.__init__\<close>, which is \<open>Idle\<close>, \<^verbatim>\<open>resume_timer\<close> starts the timer.
\<close>

theorem resume_timer_idle_counterexample:
  "phase_of (init_state [] None []) = Idle \<and>
   resume_timer (init_state [] None []) \<noteq> init_state [] None [] \<and>
   phase_of (resume_timer (init_state [] None [])) = Running \<and>
   minutes (resume_timer (init_state [] None [])) = 1"
  by (simp add: resume_timer_def update_timer_def phase_of_def init_state_def)

text \<open>
  C4, as amended. \<^verbatim>\<open>format_money\<close> on an integer renders with no decimal places:
  below 1000 the plain integer text; from 1000 the quotient by 1000 with suffix K, from
  \<open>10\<^sup>6\<close> the quotient by \<open>10\<^sup>6\<close> with suffix M, from \<open>10\<^sup>9\<close> (up to the float
  range) the quotient by \<open>10\<^sup>9\<close> with suffix G, the float quotient rounded to an
  integer with ties to even. So 999 gives \<open>999\<close>, 1500 gives \<open>2K\<close>, 2500000 gives
  \<open>2M\<close> and \<open>10\<^sup>9\<close> gives \<open>1G\<close>.
\<close>

theorem format_money_thresholds:
  "(x < 1000 \<longrightarrow> format_money (IntV x) = Inr (str_int x)) \<and>
   (1000 \<le> x \<and> x < 1000000 \<longrightarrow>
      format_money (IntV x) =
        Inr (str_nat (nat (round_half_even (fl (of_int x / 1000)))) @ ''K'')) \<and>
   (1000000 \<le> x \<and> x < 1000000000 \<longrightarrow>
      format_money (IntV x) =
        Inr (str_nat (nat (round_half_even (fl (of_int x / 1000000)))) @ ''M'')) \<and>
   (1000000000 \<le> x \<and> x \<le> 2 ^ 1023 \<longrightarrow>
      format_money (IntV x) =
        Inr (str_nat (nat (round_half_even (fl (of_int x / 1000000000)))) @ ''G'')) \<and>
   format_money (IntV 999) = Inr ''999'' \<and>
   format_money (IntV 1500) = Inr ''2K'' \<and>
   format_money (IntV 2500000) = Inr ''2M'' \<and>
   format_money (IntV 1000000000) = Inr ''1G''"
proof -
  have ex: "format_money (IntV 999) = Inr ''999'' \<and>
      format_money (IntV 1500) = Inr ''2K'' \<and>
      format_money (IntV 2500000) = Inr ''2M'' \<and>
      format_money (IntV 1000000000) = Inr ''1G''"
    by code_simp
  show ?thesis
    using ex
    by (simp add: format_money_small format_money_K format_money_M format_money_G)
qed

theorem format_money_thresholds_witness:
  "(1000::int) \<le> 1500 \<and> (1500::int) < 1000000 \<and>
   format_money (IntV 1500) = Inr (str_nat (nat (round_half_even (fl (1500 / 1000)))) @ ''K'') \<and>
   str_nat (nat (round_half_even (fl (1500 / 1000)))) = ''2'' \<and>
   (1000000::int) \<le> 2500000 \<and> (2500000::int) < 1000000000 \<and>
   format_money (IntV 2500000) =
     Inr (str_nat (nat (round_half_even (fl (2500000 / 1000000)))) @ ''M'') \<and>
   str_nat (nat (round_half_even (fl (2500000 / 1000000)))) = ''2'' \<and>
   (- 7 :: int) < 1000 \<and> format_money (IntV (- 7)) = Inr (str_int (- 7))"
proof -
  have e: "str_nat (nat (round_half_even (fl (1500 / 1000)))) = ''2''"
     "str_nat (nat (round_half_even (fl (2500000 / 1000000)))) = ''2''"
    by code_simp+
  show ?thesis
    using format_money_thresholds [of 1500] format_money_thresholds [of 2500000]
      format_money_thresholds [of "- 7"]
    by (simp add: e)
qed

text \<open>
  The claim C4 as the specification states it fails at 2500000: the quotient 2.5 is a
  tie, and the format spec \<^verbatim>\<open>.0f\<close> rounds a tie to the even neighbour.
\<close>

theorem format_money_3M_counterexample:
  "format_money (IntV 2500000) \<noteq> Inr ''3M''"
  by code_simp

text \<open>
  C8. For every row of the daily aggregate the expression of \<^verbatim>\<open>App.plot_hourly\<close>
  never divides by zero. It gives the integer 0 when the duration is not positive, and
  for a positive duration (and values in the 64-bit range of the store) the float
  \<^verbatim>\<open>earned / (duration / 60)\<close>, each division rounded to the nearest float. The list
  of rates is a function of the rows alone: it holds, in the order of the rows, the rate
  of each row.
\<close>

theorem hourly_rate_guarded:
  "hourly_rate (d, dur, earn) \<noteq> Inl ZeroDivisionError \<and>
   (dur \<le> 0 \<longrightarrow> hourly_rate (d, dur, earn) = Inr (IntV 0)) \<and>
   (0 < dur \<and> dur < 2 ^ 63 \<and> \<bar>earn\<bar> < 2 ^ 63 \<longrightarrow>
      hourly_rate (d, dur, earn) =
        Inr (FloatV (Finite (fl (fl (of_int earn) / fl (of_int dur / 60)))))) \<and>
   hourly rows \<noteq> Inl ZeroDivisionError \<and>
   (\<forall>vs. (hourly rows = Inr vs) = (map hourly_rate rows = map Inr vs)) \<and>
   (\<forall>vs. hourly rows = Inr vs \<longrightarrow>
      length vs = length rows \<and> (\<forall>i < length rows. hourly_rate (rows ! i) = Inr (vs ! i)))"
proof -
  have point: "\<forall>i < length rows. hourly_rate (rows ! i) = Inr (vs ! i)"
    if "hourly rows = Inr vs" for vs
  proof -
    from that have m: "map hourly_rate rows = map Inr vs" by (simp add: hourly_iff_map)
    show ?thesis
    proof (intro allI impI)
      fix i assume i: "i < length rows"
      from m have "length rows = length vs" by (rule map_eq_imp_length_eq)
      with i have "map hourly_rate rows ! i = hourly_rate (rows ! i)"
        and "map Inr vs ! i = (Inr (vs ! i) :: py_error + number)" by simp_all
      with m show "hourly_rate (rows ! i) = Inr (vs ! i)" by simp
    qed
  qed
  show ?thesis
    using hourly_rate_no_zero_division [of "(d, dur, earn)"] hourly_no_zero_division [of rows]
      point
    by (simp add: hourly_rate_value hourly_length hourly_iff_map) (simp add: hourly_rate_def)
qed

theorem hourly_rate_guarded_witness:
  "(0::int) < 10 \<and> (10::int) < 2 ^ 63 \<and> \<bar>93::int\<bar> < 2 ^ 63 \<and>
   hourly_rate (''2024-05-03'', 10, 93) = Inr (FloatV (Finite 558)) \<and>
   (0::int) \<le> 0 \<and> hourly_rate (''2024-05-04'', 0, 93) = Inr (IntV 0) \<and>
   hourly_rate (''2024-05-05'', 5, 100) = Inr (FloatV (Finite 1200)) \<and>
   hourly [(''2024-05-03'', 10, 93), (''2024-05-04'', 0, 93), (''2024-05-05'', 5, 100)] =
     Inr [FloatV (Finite 558), IntV 0, FloatV (Finite 1200)]"
proof -
  have e: "fl (fl (of_int 93) / fl (of_int 10 / 60)) = 558"
    and e': "fl (fl (of_int 100) / fl (of_int 5 / 60)) = 1200" by code_simp+
  have b: "(0::int) < 10 \<and> (10::int) < 2 ^ 63 \<and> \<bar>93::int\<bar> < 2 ^ 63"
    and b': "(0::int) < 5 \<and> (5::int) < 2 ^ 63 \<and> \<bar>100::int\<bar> < 2 ^ 63" by simp_all
  from hourly_rate_guarded [of "''2024-05-03''" 10 93 "[]"] b
  have r1: "hourly_rate (''2024-05-03'', 10, 93) =
      Inr (FloatV (Finite (fl (fl (of_int 93) / fl (of_int 10 / 60)))))"
    by blast
  from hourly_rate_guarded [of "''2024-05-04''" 0 93 "[]"]
  have r2: "hourly_rate (''2024-05-04'', 0, 93) = Inr (IntV 0)"
    by blast
  from hourly_rate_guarded [of "''2024-05-05''" 5 100 "[]"] b'
  have r3: "hourly_rate (''2024-05-05'', 5, 100) =
      Inr (FloatV (Finite (fl (fl (of_int 100) / fl (of_int 5 / 60)))))"
    by blast
  have m: "map hourly_rate
        [(''2024-05-03'', 10, 93), (''2024-05-04'', 0, 93), (''2024-05-05'', 5, 100)] =
      map Inr [FloatV (Finite 558), IntV 0, FloatV (Finite 1200)]"
    using r1 r2 r3 unfolding e e' by simp
  from hourly_rate_guarded [of "''x''" 0 0
      "[(''2024-05-03'', 10, 93), (''2024-05-04'', 0, 93), (''2024-05-05'', 5, 100)]"] m
  have h: "hourly [(''2024-05-03'', 10, 93), (''2024-05-04'', 0, 93), (''2024-05-05'', 5, 100)] =
      Inr [FloatV (Finite 558), IntV 0, FloatV (Finite 1200)]"
    by blast
  show ?thesis
    using b r1 r2 r3 h unfolding e e' by blast
qed

text \<open>
  C9. \<^verbatim>\<open>App.get_daily_data\<close> and \<^verbatim>\<open>App.get_hourly_data\<close> run the same query, but
  the first one unpacks \<^verbatim>\<open>month_filter.split('-')\<close> into two names before it. On the
  filter \<^verbatim>\<open>2024\<close>, which the user can type into the combobox, the first raises
  \<^verbatim>\<open>ValueError\<close> and the second returns the rows of the query.
\<close>

theorem daily_hourly_differ:
  "get_daily_data ''2024'' [] = Inl ValueError \<and> get_hourly_data ''2024'' [] = Inr []"
  by code_simp

text \<open>
  C10. On the integers that reach them, the 64-bit amounts of the store,
  \<^verbatim>\<open>format_money\<close> and \<^verbatim>\<open>format_hourly\<close> always return a text. For a negative
  amount every threshold fails and the text is the plain integer text, a minus sign and
  digits with no suffix, whatever the magnitude.
\<close>

theorem format_negative:
  "(- (2 ^ 63) \<le> x \<and> x < 2 ^ 63 \<longrightarrow>
      (\<exists>t. format_money (IntV x) = Inr t) \<and> (\<exists>t. format_hourly (IntV x) = Inr t)) \<and>
   (- (2 ^ 63) \<le> x \<and> x < 0 \<longrightarrow>
      format_money (IntV x) = Inr (str_int x) \<and>
      format_hourly (IntV x) = Inr (str_int x) \<and>
      str_int x = CHR ''-'' # str_nat (nat (- x)) \<and>
      list_all is_digit (str_nat (nat (- x))))"
proof -
  have "x \<le> 2 ^ 1023" if "x < 2 ^ 63"
  proof -
    have "(2::int) ^ 63 \<le> 2 ^ 1023" by (rule power_increasing) simp_all
    with that show ?thesis by linarith
  qed
  then show ?thesis
    by (simp add: format_money_returns format_hourly_returns format_money_small
        format_hourly_small str_nat_digits str_int_def)
qed

theorem format_negative_witness:
  "- (2 ^ 63) \<le> (- 2500000 :: int) \<and> (- 2500000 :: int) < 2 ^ 63 \<and> (- 2500000 :: int) < 0 \<and>
   format_money (IntV (- 2500000)) = Inr ''-2500000'' \<and>
   format_hourly (IntV (- 2500000)) = Inr ''-2500000''"
proof -
  have e: "str_int (- 2500000) = ''-2500000''"
    by (simp add: str_int_def str_nat_eval)
  show ?thesis
    using format_negative [of "- 2500000"] by (simp add: e)
qed



end
